theory Spec2Isabelle
  imports Main
begin

section \<open>Data model\<close>

text \<open>
  The schema of the repository is three tables, \<^verbatim>\<open>public.memories\<close>,
  \<^verbatim>\<open>public.memory_records\<close> and \<^verbatim>\<open>public.chat_messages\<close>, each under row level
  security, with one BEFORE UPDATE trigger on memories and one AFTER INSERT trigger on
  chat_messages. A \<^verbatim>\<open>uuid\<close> is modelled by a natural number (only equality and the
  total order of the type are used) and a \<^verbatim>\<open>timestamptz\<close> by an integer; \<^verbatim>\<open>text\<close>
  is a string and \<^verbatim>\<open>jsonb\<close> is kept as its text.
\<close>

type_synonym uuid = nat
type_synonym timestamptz = int

text \<open>
  A stored row has a value in every \<^verbatim>\<open>not null\<close> column; only
  \<^verbatim>\<open>memories.description\<close> is nullable. Field prefixes \<open>m_\<close>, \<open>r_\<close>, \<open>c_\<close> stand
  for the three tables.
\<close>

record memory =
  m_id :: uuid
  m_user_id :: uuid
  m_title :: string
  m_description :: "string option"
  m_created_at :: timestamptz
  m_updated_at :: timestamptz

record memory_record =
  r_id :: uuid
  r_memory_id :: uuid
  r_user_id :: uuid
  r_content :: string
  r_metadata :: string
  r_created_at :: timestamptz

record chat_message =
  c_id :: uuid
  c_user_id :: uuid
  c_memory_id :: uuid
  c_role :: string
  c_content :: string
  c_created_at :: timestamptz

text \<open>
  The tuple \<^verbatim>\<open>NEW\<close> of a statement, before the constraints are checked: every column
  may still be NULL (\<open>None\<close>). Prefixes \<open>mn_\<close>, \<open>rn_\<close>, \<open>cn_\<close>.
\<close>

record memory_new =
  mn_id :: "uuid option"
  mn_user_id :: "uuid option"
  mn_title :: "string option"
  mn_description :: "string option"
  mn_created_at :: "timestamptz option"
  mn_updated_at :: "timestamptz option"

record memory_record_new =
  rn_id :: "uuid option"
  rn_memory_id :: "uuid option"
  rn_user_id :: "uuid option"
  rn_content :: "string option"
  rn_metadata :: "string option"
  rn_created_at :: "timestamptz option"

record chat_message_new =
  cn_id :: "uuid option"
  cn_user_id :: "uuid option"
  cn_memory_id :: "uuid option"
  cn_role :: "string option"
  cn_content :: "string option"
  cn_created_at :: "timestamptz option"

text \<open>
  What a statement says about one column: the column is not mentioned (an INSERT then
  takes the column default, an UPDATE keeps the old value), it is given NULL, or it is
  given a value. Prefixes \<open>ms_\<close>, \<open>rs_\<close>, \<open>cs_\<close> for the column lists of a statement.
\<close>

datatype 'a col = Omitted | Null | Val 'a

fun col_value :: "'a option \<Rightarrow> 'a col \<Rightarrow> 'a option" where
  "col_value d Omitted = d"
| "col_value d Null = None"
| "col_value d (Val v) = Some v"

record memory_stmt =
  ms_id :: "uuid col"
  ms_user_id :: "uuid col"
  ms_title :: "string col"
  ms_description :: "string col"
  ms_created_at :: "timestamptz col"
  ms_updated_at :: "timestamptz col"

record memory_record_stmt =
  rs_id :: "uuid col"
  rs_memory_id :: "uuid col"
  rs_user_id :: "uuid col"
  rs_content :: "string col"
  rs_metadata :: "string col"
  rs_created_at :: "timestamptz col"

record chat_message_stmt =
  cs_id :: "uuid col"
  cs_user_id :: "uuid col"
  cs_memory_id :: "uuid col"
  cs_role :: "string col"
  cs_content :: "string col"
  cs_created_at :: "timestamptz col"

text \<open>
  The database: the ids of \<^verbatim>\<open>auth.users\<close> (a table of the identity provider, of which
  the schema only references the key) and the three tables, each a list of rows.
\<close>

record db =
  users :: "uuid list"
  memories :: "memory list"
  memory_records :: "memory_record list"
  chat_messages :: "chat_message list"

text \<open>
  What a statement reads from its session: \<^verbatim>\<open>auth.uid()\<close> (NULL without a signed-in
  user), \<^verbatim>\<open>now()\<close>, and the value \<^verbatim>\<open>gen_random_uuid()\<close> would return.
\<close>

record ctx =
  auth_uid :: "uuid option"
  now :: timestamptz
  gen_random_uuid :: uuid

text \<open>
  The errors of a statement. \<open>AmbiguousColumn\<close> is SQLSTATE 42702, \<open>UndefinedTable\<close> is
  the error for a qualifier that names nothing.
\<close>

datatype error =
  RlsViolation
  | NotNullViolation
  | CheckViolation
  | UniqueViolation
  | ForeignKeyViolation
  | AmbiguousColumn
  | UndefinedTable

section \<open>Row level security policies\<close>

text \<open>
  All three tables enable row level security, and the statements below are those of a
  client role that is subject to it; \<^verbatim>\<open>auth.uid()\<close> is the user of the session.

  SQL equality in a policy or a WHERE clause: a comparison with NULL is not true.
\<close>

definition sql_eq :: "'a option \<Rightarrow> 'a option \<Rightarrow> bool" where
  "sql_eq a b \<longleftrightarrow> a \<noteq> None \<and> a = b"

text \<open>
  The four policies of \<^verbatim>\<open>memories\<close> (select own, insert own, update own with its
  USING and its WITH CHECK, delete own) all carry the expression
  \<^verbatim>\<open>auth.uid() = user_id\<close>.
\<close>

definition memories_policy :: "ctx \<Rightarrow> uuid option \<Rightarrow> bool" where
  "memories_policy cx uid \<longleftrightarrow> sql_eq (auth_uid cx) uid"

text \<open>
  The subquery of the policies of the two child tables,
  \<^verbatim>\<open>exists (select 1 from public.memories m where m.id = memory_id and m.user_id = auth.uid())\<close>.
  It reads \<^verbatim>\<open>memories\<close> through that table's own select policy.
\<close>

definition exists_own_memory :: "ctx \<Rightarrow> db \<Rightarrow> uuid option \<Rightarrow> bool" where
  "exists_own_memory cx d mid \<longleftrightarrow>
     (\<exists>m \<in> set (memories d).
        memories_policy cx (Some (m_user_id m))
        \<and> sql_eq (Some (m_id m)) mid
        \<and> sql_eq (Some (m_user_id m)) (auth_uid cx))"

text \<open>
  The policies "records select/insert/update/delete by owner" and
  "chat select/insert/update/delete by owner" all carry the same expression:
  \<^verbatim>\<open>auth.uid() = user_id and exists (...)\<close>.
\<close>

definition records_policy :: "ctx \<Rightarrow> db \<Rightarrow> uuid option \<Rightarrow> uuid option \<Rightarrow> bool" where
  "records_policy cx d uid mid \<longleftrightarrow> sql_eq (auth_uid cx) uid \<and> exists_own_memory cx d mid"

definition chat_policy :: "ctx \<Rightarrow> db \<Rightarrow> uuid option \<Rightarrow> uuid option \<Rightarrow> bool" where
  "chat_policy cx d uid mid \<longleftrightarrow> sql_eq (auth_uid cx) uid \<and> exists_own_memory cx d mid"

definition chat_row_policy :: "ctx \<Rightarrow> db \<Rightarrow> chat_message \<Rightarrow> bool" where
  "chat_row_policy cx d c \<longleftrightarrow> chat_policy cx d (Some (c_user_id c)) (Some (c_memory_id c))"

section \<open>The retention trigger of chat_messages\<close>

text \<open>
  \<^verbatim>\<open>order by created_at desc, id desc\<close>: \<open>newer a b\<close> says that \<open>a\<close> comes strictly
  before \<open>b\<close> in that order. The sort is an insertion sort into descending order.
\<close>

definition newer :: "chat_message \<Rightarrow> chat_message \<Rightarrow> bool" where
  "newer a b \<longleftrightarrow>
     c_created_at a > c_created_at b
     \<or> (c_created_at a = c_created_at b \<and> c_id a > c_id b)"

fun insert_desc :: "chat_message \<Rightarrow> chat_message list \<Rightarrow> chat_message list" where
  "insert_desc x [] = [x]"
| "insert_desc x (y # ys) = (if newer x y then x # y # ys else y # insert_desc x ys)"

definition order_by_created_at_desc_id_desc :: "chat_message list \<Rightarrow> chat_message list" where
  "order_by_created_at_desc_id_desc xs = fold insert_desc xs []"

text \<open>
  The rows of one (user_id, memory_id) pair, the WHERE clause of the subquery.
\<close>

definition transcript :: "uuid \<Rightarrow> uuid \<Rightarrow> chat_message list \<Rightarrow> chat_message list" where
  "transcript u m cs = filter (\<lambda>c. c_user_id c = u \<and> c_memory_id c = m) cs"

text \<open>
  The DELETE statement in the body of \<^verbatim>\<open>prune_chat_messages()\<close>, with every reference
  resolved the way the query reads. The function is not SECURITY DEFINER, so the subquery
  reads \<^verbatim>\<open>chat_messages\<close> through the select policy and the DELETE removes only rows
  that pass the select and the delete policy, for the user who ran the INSERT. The
  subquery yields the ids of the rows of the pair of \<^verbatim>\<open>NEW\<close> from rank 11 on
  (\<^verbatim>\<open>offset 10\<close>), and the DELETE removes every row whose id is among them.
\<close>

definition prune_delete :: "ctx \<Rightarrow> chat_message \<Rightarrow> db \<Rightarrow> db" where
  "prune_delete cx NEW d =
     (let visible = filter (chat_row_policy cx d) (chat_messages d);
          old = map c_id (drop 10 (order_by_created_at_desc_id_desc
                   (transcript (c_user_id NEW) (c_memory_id NEW) visible)))
      in d\<lparr>chat_messages :=
             filter (\<lambda>c. \<not> (chat_row_policy cx d c \<and> c_id c \<in> set old))
               (chat_messages d)\<rparr>)"

text \<open>
  How PL/pgSQL resolves a qualified reference \<^verbatim>\<open>q.column\<close> inside an SQL statement of a
  trigger function. The records \<^verbatim>\<open>NEW\<close> and \<^verbatim>\<open>OLD\<close> are variables of every trigger
  function (identifiers fold to lower case). A qualifier that is a table alias of the
  query and also one of these variables is refused: the function sets no
  \<^verbatim>\<open>variable_conflict\<close> option, and the default is to raise "column reference is
  ambiguous".
\<close>

datatype resolved = Variable | Column

definition trigger_records :: "string list" where
  "trigger_records = [''new'', ''old'']"

definition column_ref :: "string list \<Rightarrow> string \<Rightarrow> error + resolved" where
  "column_ref aliases q =
     (if q \<in> set trigger_records \<and> q \<in> set aliases then Inl AmbiguousColumn
      else if q \<in> set trigger_records then Inr Variable
      else if q \<in> set aliases then Inr Column
      else Inl UndefinedTable)"

text \<open>
  \<^verbatim>\<open>prune_chat_messages()\<close>. Its statement is
  \<^verbatim>\<open>delete from public.chat_messages c using (select ... where user_id = NEW.user_id and memory_id = NEW.memory_id ...) old where c.id = old.id\<close>:
  the subquery reads \<^verbatim>\<open>NEW.user_id\<close> and \<^verbatim>\<open>NEW.memory_id\<close> with
  \<^verbatim>\<open>chat_messages\<close> as its only table, and the outer query, whose tables are the
  aliases \<^verbatim>\<open>c\<close> and \<^verbatim>\<open>old\<close>, reads \<^verbatim>\<open>c.id\<close> and \<^verbatim>\<open>old.id\<close>. The statement runs
  only if every reference resolves; the function has no exception handler.
\<close>

definition prune_chat_messages :: "ctx \<Rightarrow> chat_message \<Rightarrow> db \<Rightarrow> error + db" where
  "prune_chat_messages cx NEW d =
     (case column_ref [''chat_messages''] ''new'' of
        Inl e \<Rightarrow> Inl e
      | Inr _ \<Rightarrow>
          (case column_ref [''c'', ''old''] ''c'' of
             Inl e \<Rightarrow> Inl e
           | Inr _ \<Rightarrow>
               (case column_ref [''c'', ''old''] ''old'' of
                  Inl e \<Rightarrow> Inl e
                | Inr _ \<Rightarrow> Inr (prune_delete cx NEW d))))"

section \<open>INSERT into chat_messages\<close>

text \<open>
  The tuple of an INSERT: the column defaults are \<^verbatim>\<open>gen_random_uuid()\<close> for id and
  \<^verbatim>\<open>now()\<close> for created_at; the other columns have none.
\<close>

definition chat_messages_new :: "ctx \<Rightarrow> chat_message_stmt \<Rightarrow> chat_message_new" where
  "chat_messages_new cx s =
     \<lparr>cn_id = col_value (Some (gen_random_uuid cx)) (cs_id s),
      cn_user_id = col_value None (cs_user_id s),
      cn_memory_id = col_value None (cs_memory_id s),
      cn_role = col_value None (cs_role s),
      cn_content = col_value None (cs_content s),
      cn_created_at = col_value (Some (now cx)) (cs_created_at s)\<rparr>"

text \<open>
  The \<^verbatim>\<open>not null\<close> constraints of the six columns: the stored row, if no column is NULL.
\<close>

definition chat_messages_not_null :: "chat_message_new \<Rightarrow> chat_message option" where
  "chat_messages_not_null n =
     Option.bind (cn_id n) (\<lambda>i.
     Option.bind (cn_user_id n) (\<lambda>u.
     Option.bind (cn_memory_id n) (\<lambda>m.
     Option.bind (cn_role n) (\<lambda>r.
     Option.bind (cn_content n) (\<lambda>t.
     Option.bind (cn_created_at n) (\<lambda>a.
       Some \<lparr>c_id = i, c_user_id = u, c_memory_id = m, c_role = r, c_content = t,
             c_created_at = a\<rparr>))))))"

text \<open>
  \<^verbatim>\<open>check (role in ('user','assistant','system'))\<close>.
\<close>

definition role_check :: "string \<Rightarrow> bool" where
  "role_check r \<longleftrightarrow> r \<in> set [''user'', ''assistant'', ''system'']"

text \<open>
  A foreign key column is checked when a row is inserted (there is no old row) and when
  an UPDATE changes its value.
\<close>

definition fk_checked :: "'a option \<Rightarrow> 'a \<Rightarrow> bool" where
  "fk_checked old_value new_value \<longleftrightarrow> old_value \<noteq> Some new_value"

text \<open>
  The constraints on a row that is about to be stored, given the other rows of the
  table and, for an UPDATE, the old row: not null, the role check, the primary key, and
  the two foreign keys.
\<close>

definition chat_messages_constraints ::
  "db \<Rightarrow> chat_message list \<Rightarrow> chat_message option \<Rightarrow> chat_message_new
     \<Rightarrow> error + chat_message" where
  "chat_messages_constraints d others old n =
     (case chat_messages_not_null n of
        None \<Rightarrow> Inl NotNullViolation
      | Some c \<Rightarrow>
          if \<not> role_check (c_role c) then Inl CheckViolation
          else if c_id c \<in> set (map c_id others) then Inl UniqueViolation
          else if fk_checked (map_option c_user_id old) (c_user_id c)
                  \<and> c_user_id c \<notin> set (users d)
            then Inl ForeignKeyViolation
          else if fk_checked (map_option c_memory_id old) (c_memory_id c)
                  \<and> c_memory_id c \<notin> set (map m_id (memories d))
            then Inl ForeignKeyViolation
          else Inr c)"

text \<open>
  One INSERT of one row: the WITH CHECK of "chat insert by owner" on the proposed tuple,
  the constraints, the write, then \<^verbatim>\<open>trg_prune_chat_messages\<close> (after insert, for each
  row). An error anywhere, also in the trigger, aborts the statement: no state is
  returned.
\<close>

definition insert_chat_message :: "ctx \<Rightarrow> chat_message_stmt \<Rightarrow> db \<Rightarrow> error + db" where
  "insert_chat_message cx s d =
     (let n = chat_messages_new cx s in
      if \<not> chat_policy cx d (cn_user_id n) (cn_memory_id n) then Inl RlsViolation
      else case chat_messages_constraints d (chat_messages d) None n of
             Inl e \<Rightarrow> Inl e
           | Inr c \<Rightarrow> prune_chat_messages cx c (d\<lparr>chat_messages := chat_messages d @ [c]\<rparr>))"

section \<open>UPDATE and DELETE of chat_messages\<close>

text \<open>
  An UPDATE visits the rows of the table that its USING policy and its WHERE clause
  select, replaces each by the checked new row, and returns the new table with the rows
  it changed (its RETURNING list). The first row that fails a check aborts the statement.
\<close>

fun update_where ::
  "('a \<Rightarrow> bool) \<Rightarrow> ('a \<Rightarrow> error + 'a) \<Rightarrow> 'a list \<Rightarrow> error + ('a list \<times> 'a list)" where
  "update_where sel f [] = Inr ([], [])"
| "update_where sel f (x # xs) =
     (if sel x then
        (case f x of
           Inl e \<Rightarrow> Inl e
         | Inr y \<Rightarrow>
             (case update_where sel f xs of
                Inl e \<Rightarrow> Inl e
              | Inr (ys, ret) \<Rightarrow> Inr (y # ys, y # ret)))
      else
        (case update_where sel f xs of
           Inl e \<Rightarrow> Inl e
         | Inr (ys, ret) \<Rightarrow> Inr (x # ys, ret)))"

text \<open>
  The tuple \<^verbatim>\<open>NEW\<close> of an UPDATE: the old row, with the columns of the SET clause
  replaced.
\<close>

definition chat_messages_update_new :: "chat_message \<Rightarrow> chat_message_stmt \<Rightarrow> chat_message_new" where
  "chat_messages_update_new old s =
     \<lparr>cn_id = col_value (Some (c_id old)) (cs_id s),
      cn_user_id = col_value (Some (c_user_id old)) (cs_user_id s),
      cn_memory_id = col_value (Some (c_memory_id old)) (cs_memory_id s),
      cn_role = col_value (Some (c_role old)) (cs_role s),
      cn_content = col_value (Some (c_content old)) (cs_content s),
      cn_created_at = col_value (Some (c_created_at old)) (cs_created_at s)\<rparr>"

text \<open>
  "chat update by owner": the USING expression selects the rows, the WITH CHECK
  expression is evaluated on the new tuple. The table has no UPDATE trigger.
\<close>

definition update_chat_message_row ::
  "ctx \<Rightarrow> chat_message_stmt \<Rightarrow> db \<Rightarrow> chat_message \<Rightarrow> error + chat_message" where
  "update_chat_message_row cx s d old =
     (let n = chat_messages_update_new old s in
      if \<not> chat_policy cx d (cn_user_id n) (cn_memory_id n) then Inl RlsViolation
      else chat_messages_constraints d (remove1 old (chat_messages d)) (Some old) n)"

definition update_chat_message ::
  "ctx \<Rightarrow> uuid \<Rightarrow> chat_message_stmt \<Rightarrow> db \<Rightarrow> error + (db \<times> chat_message list)" where
  "update_chat_message cx cid s d =
     (case update_where (\<lambda>c. chat_row_policy cx d c \<and> c_id c = cid)
             (update_chat_message_row cx s d) (chat_messages d) of
        Inl e \<Rightarrow> Inl e
      | Inr (cs, ret) \<Rightarrow> Inr (d\<lparr>chat_messages := cs\<rparr>, ret))"

text \<open>
  "chat delete by owner": the rows that pass the policy and the WHERE clause go; the
  statement returns the new state and the deleted rows.
\<close>

definition delete_chat_message :: "ctx \<Rightarrow> uuid \<Rightarrow> db \<Rightarrow> db \<times> chat_message list" where
  "delete_chat_message cx cid d =
     (d\<lparr>chat_messages := filter (\<lambda>c. \<not> (chat_row_policy cx d c \<and> c_id c = cid)) (chat_messages d)\<rparr>,
      filter (\<lambda>c. chat_row_policy cx d c \<and> c_id c = cid) (chat_messages d))"

section \<open>The table memories\<close>

text \<open>
  The tuple of an INSERT: \<^verbatim>\<open>gen_random_uuid()\<close> is the default of id, \<^verbatim>\<open>now()\<close> that of
  created_at and of updated_at.
\<close>

definition memories_new :: "ctx \<Rightarrow> memory_stmt \<Rightarrow> memory_new" where
  "memories_new cx s =
     \<lparr>mn_id = col_value (Some (gen_random_uuid cx)) (ms_id s),
      mn_user_id = col_value None (ms_user_id s),
      mn_title = col_value None (ms_title s),
      mn_description = col_value None (ms_description s),
      mn_created_at = col_value (Some (now cx)) (ms_created_at s),
      mn_updated_at = col_value (Some (now cx)) (ms_updated_at s)\<rparr>"

text \<open>
  \<^verbatim>\<open>not null\<close> on id, user_id, title, created_at and updated_at; description may be NULL.
\<close>

definition memories_not_null :: "memory_new \<Rightarrow> memory option" where
  "memories_not_null n =
     Option.bind (mn_id n) (\<lambda>i.
     Option.bind (mn_user_id n) (\<lambda>u.
     Option.bind (mn_title n) (\<lambda>t.
     Option.bind (mn_created_at n) (\<lambda>a.
     Option.bind (mn_updated_at n) (\<lambda>b.
       Some \<lparr>m_id = i, m_user_id = u, m_title = t, m_description = mn_description n,
             m_created_at = a, m_updated_at = b\<rparr>)))))"

text \<open>
  The constraints of memories: not null, the primary key, and
  \<^verbatim>\<open>references auth.users(id)\<close>.
\<close>

definition memories_constraints ::
  "db \<Rightarrow> memory list \<Rightarrow> memory option \<Rightarrow> memory_new \<Rightarrow> error + memory" where
  "memories_constraints d others old n =
     (case memories_not_null n of
        None \<Rightarrow> Inl NotNullViolation
      | Some m \<Rightarrow>
          if m_id m \<in> set (map m_id others) then Inl UniqueViolation
          else if fk_checked (map_option m_user_id old) (m_user_id m)
                  \<and> m_user_id m \<notin> set (users d)
            then Inl ForeignKeyViolation
          else Inr m)"

definition insert_memory :: "ctx \<Rightarrow> memory_stmt \<Rightarrow> db \<Rightarrow> error + db" where
  "insert_memory cx s d =
     (let n = memories_new cx s in
      if \<not> memories_policy cx (mn_user_id n) then Inl RlsViolation
      else case memories_constraints d (memories d) None n of
             Inl e \<Rightarrow> Inl e
           | Inr m \<Rightarrow> Inr (d\<lparr>memories := memories d @ [m]\<rparr>))"

text \<open>
  A SELECT by id under "memories select own".
\<close>

definition select_memory :: "ctx \<Rightarrow> uuid \<Rightarrow> db \<Rightarrow> memory list" where
  "select_memory cx mid d =
     filter (\<lambda>m. memories_policy cx (Some (m_user_id m)) \<and> m_id m = mid) (memories d)"

definition memories_update_new :: "memory \<Rightarrow> memory_stmt \<Rightarrow> memory_new" where
  "memories_update_new old s =
     \<lparr>mn_id = col_value (Some (m_id old)) (ms_id s),
      mn_user_id = col_value (Some (m_user_id old)) (ms_user_id s),
      mn_title = col_value (Some (m_title old)) (ms_title s),
      mn_description = col_value (m_description old) (ms_description s),
      mn_created_at = col_value (Some (m_created_at old)) (ms_created_at s),
      mn_updated_at = col_value (Some (m_updated_at old)) (ms_updated_at s)\<rparr>"

text \<open>
  \<^verbatim>\<open>set_updated_at()\<close>, the function of \<^verbatim>\<open>trg_memories_updated_at\<close> (before update,
  for each row): \<^verbatim>\<open>new.updated_at = now(); return new;\<close>
\<close>

definition set_updated_at :: "ctx \<Rightarrow> memory_new \<Rightarrow> memory_new" where
  "set_updated_at cx n = n\<lparr>mn_updated_at := Some (now cx)\<rparr>"

text \<open>
  One row of an UPDATE of memories: the trigger runs on the new tuple, then the WITH
  CHECK of "memories update own", then the constraints. The two child tables reference
  \<^verbatim>\<open>memories(id)\<close> with no ON UPDATE action, so a row whose id is still referenced cannot
  change its id.
\<close>

definition update_memory_row :: "ctx \<Rightarrow> memory_stmt \<Rightarrow> db \<Rightarrow> memory \<Rightarrow> error + memory" where
  "update_memory_row cx s d old =
     (let n = set_updated_at cx (memories_update_new old s) in
      if \<not> memories_policy cx (mn_user_id n) then Inl RlsViolation
      else case memories_constraints d (remove1 old (memories d)) (Some old) n of
             Inl e \<Rightarrow> Inl e
           | Inr m \<Rightarrow>
               if m_id m \<noteq> m_id old
                  \<and> (m_id old \<in> set (map r_memory_id (memory_records d))
                     \<or> m_id old \<in> set (map c_memory_id (chat_messages d)))
               then Inl ForeignKeyViolation
               else Inr m)"

definition update_memory ::
  "ctx \<Rightarrow> uuid \<Rightarrow> memory_stmt \<Rightarrow> db \<Rightarrow> error + (db \<times> memory list)" where
  "update_memory cx mid s d =
     (case update_where (\<lambda>m. memories_policy cx (Some (m_user_id m)) \<and> m_id m = mid)
             (update_memory_row cx s d) (memories d) of
        Inl e \<Rightarrow> Inl e
      | Inr (ms, ret) \<Rightarrow> Inr (d\<lparr>memories := ms\<rparr>, ret))"

text \<open>
  A DELETE by id under "memories delete own". Both child tables declare
  \<^verbatim>\<open>memory_id ... references public.memories(id) on delete cascade\<close>: the rows that
  reference a deleted memory go in the same statement (the cascade is not subject to the
  policies of the child tables).
\<close>

definition delete_memory :: "ctx \<Rightarrow> uuid \<Rightarrow> db \<Rightarrow> db \<times> memory list" where
  "delete_memory cx mid d =
     (let gone = filter (\<lambda>m. memories_policy cx (Some (m_user_id m)) \<and> m_id m = mid) (memories d)
      in (d\<lparr>memories :=
               filter (\<lambda>m. \<not> (memories_policy cx (Some (m_user_id m)) \<and> m_id m = mid)) (memories d),
             memory_records :=
               filter (\<lambda>r. r_memory_id r \<notin> set (map m_id gone)) (memory_records d),
             chat_messages :=
               filter (\<lambda>c. c_memory_id c \<notin> set (map m_id gone)) (chat_messages d)\<rparr>,
          gone))"

section \<open>INSERT into memory_records\<close>

text \<open>
  Defaults: \<^verbatim>\<open>gen_random_uuid()\<close> for id, \<^verbatim>\<open>'{}'::jsonb\<close> for metadata, \<^verbatim>\<open>now()\<close> for
  created_at.
\<close>

definition memory_records_new :: "ctx \<Rightarrow> memory_record_stmt \<Rightarrow> memory_record_new" where
  "memory_records_new cx s =
     \<lparr>rn_id = col_value (Some (gen_random_uuid cx)) (rs_id s),
      rn_memory_id = col_value None (rs_memory_id s),
      rn_user_id = col_value None (rs_user_id s),
      rn_content = col_value None (rs_content s),
      rn_metadata = col_value (Some ''{}'') (rs_metadata s),
      rn_created_at = col_value (Some (now cx)) (rs_created_at s)\<rparr>"

definition memory_records_not_null :: "memory_record_new \<Rightarrow> memory_record option" where
  "memory_records_not_null n =
     Option.bind (rn_id n) (\<lambda>i.
     Option.bind (rn_memory_id n) (\<lambda>m.
     Option.bind (rn_user_id n) (\<lambda>u.
     Option.bind (rn_content n) (\<lambda>t.
     Option.bind (rn_metadata n) (\<lambda>j.
     Option.bind (rn_created_at n) (\<lambda>a.
       Some \<lparr>r_id = i, r_memory_id = m, r_user_id = u, r_content = t, r_metadata = j,
             r_created_at = a\<rparr>))))))"

definition memory_records_constraints ::
  "db \<Rightarrow> memory_record list \<Rightarrow> memory_record option \<Rightarrow> memory_record_new
     \<Rightarrow> error + memory_record" where
  "memory_records_constraints d others old n =
     (case memory_records_not_null n of
        None \<Rightarrow> Inl NotNullViolation
      | Some r \<Rightarrow>
          if r_id r \<in> set (map r_id others) then Inl UniqueViolation
          else if fk_checked (map_option r_memory_id old) (r_memory_id r)
                  \<and> r_memory_id r \<notin> set (map m_id (memories d))
            then Inl ForeignKeyViolation
          else if fk_checked (map_option r_user_id old) (r_user_id r)
                  \<and> r_user_id r \<notin> set (users d)
            then Inl ForeignKeyViolation
          else Inr r)"

definition insert_memory_record :: "ctx \<Rightarrow> memory_record_stmt \<Rightarrow> db \<Rightarrow> error + db" where
  "insert_memory_record cx s d =
     (let n = memory_records_new cx s in
      if \<not> records_policy cx d (rn_user_id n) (rn_memory_id n) then Inl RlsViolation
      else case memory_records_constraints d (memory_records d) None n of
             Inl e \<Rightarrow> Inl e
           | Inr r \<Rightarrow> Inr (d\<lparr>memory_records := memory_records d @ [r]\<rparr>))"

section \<open>UPDATE and DELETE of memory_records\<close>

text \<open>
  "records update by owner" and "records delete by owner", as for chat_messages. The
  table has no trigger.
\<close>

definition memory_records_update_new ::
  "memory_record \<Rightarrow> memory_record_stmt \<Rightarrow> memory_record_new" where
  "memory_records_update_new old s =
     \<lparr>rn_id = col_value (Some (r_id old)) (rs_id s),
      rn_memory_id = col_value (Some (r_memory_id old)) (rs_memory_id s),
      rn_user_id = col_value (Some (r_user_id old)) (rs_user_id s),
      rn_content = col_value (Some (r_content old)) (rs_content s),
      rn_metadata = col_value (Some (r_metadata old)) (rs_metadata s),
      rn_created_at = col_value (Some (r_created_at old)) (rs_created_at s)\<rparr>"

definition records_row_policy :: "ctx \<Rightarrow> db \<Rightarrow> memory_record \<Rightarrow> bool" where
  "records_row_policy cx d r \<longleftrightarrow>
     records_policy cx d (Some (r_user_id r)) (Some (r_memory_id r))"

definition update_memory_record_row ::
  "ctx \<Rightarrow> memory_record_stmt \<Rightarrow> db \<Rightarrow> memory_record \<Rightarrow> error + memory_record" where
  "update_memory_record_row cx s d old =
     (let n = memory_records_update_new old s in
      if \<not> records_policy cx d (rn_user_id n) (rn_memory_id n) then Inl RlsViolation
      else memory_records_constraints d (remove1 old (memory_records d)) (Some old) n)"

definition update_memory_record ::
  "ctx \<Rightarrow> uuid \<Rightarrow> memory_record_stmt \<Rightarrow> db \<Rightarrow> error + (db \<times> memory_record list)" where
  "update_memory_record cx rid s d =
     (case update_where (\<lambda>r. records_row_policy cx d r \<and> r_id r = rid)
             (update_memory_record_row cx s d) (memory_records d) of
        Inl e \<Rightarrow> Inl e
      | Inr (rs, ret) \<Rightarrow> Inr (d\<lparr>memory_records := rs\<rparr>, ret))"

definition delete_memory_record :: "ctx \<Rightarrow> uuid \<Rightarrow> db \<Rightarrow> db \<times> memory_record list" where
  "delete_memory_record cx rid d =
     (d\<lparr>memory_records :=
          filter (\<lambda>r. \<not> (records_row_policy cx d r \<and> r_id r = rid)) (memory_records d)\<rparr>,
      filter (\<lambda>r. records_row_policy cx d r \<and> r_id r = rid) (memory_records d))"

section \<open>Deleting a user\<close>

text \<open>
  \<^verbatim>\<open>auth.users\<close> belongs to the identity provider. All three tables declare
  \<^verbatim>\<open>user_id ... references auth.users(id) on delete cascade\<close>, so deleting a user row
  deletes the user's memories, records and chat messages, and the deleted memories take
  the rows that reference them along.
\<close>

definition delete_user :: "uuid \<Rightarrow> db \<Rightarrow> db" where
  "delete_user uid d =
     (let gone = map m_id (filter (\<lambda>m. m_user_id m = uid) (memories d))
      in d\<lparr>users := removeAll uid (users d),
           memories := filter (\<lambda>m. m_user_id m \<noteq> uid) (memories d),
           memory_records :=
             filter (\<lambda>r. r_user_id r \<noteq> uid \<and> r_memory_id r \<notin> set gone) (memory_records d),
           chat_messages :=
             filter (\<lambda>c. c_user_id c \<noteq> uid \<and> c_memory_id c \<notin> set gone) (chat_messages d)\<rparr>)"

text \<open>
  The foreign keys of the schema as a predicate on a state: every \<^verbatim>\<open>user_id\<close> is the id
  of a user, every \<^verbatim>\<open>memory_id\<close> the id of a memory.
\<close>

definition references_users :: "db \<Rightarrow> bool" where
  "references_users d \<longleftrightarrow>
     (\<forall>m \<in> set (memories d). m_user_id m \<in> set (users d))
     \<and> (\<forall>r \<in> set (memory_records d). r_user_id r \<in> set (users d))
     \<and> (\<forall>c \<in> set (chat_messages d). c_user_id c \<in> set (users d))"

definition references_memories :: "db \<Rightarrow> bool" where
  "references_memories d \<longleftrightarrow>
     (\<forall>r \<in> set (memory_records d). r_memory_id r \<in> set (map m_id (memories d)))
     \<and> (\<forall>c \<in> set (chat_messages d). c_memory_id c \<in> set (map m_id (memories d)))"

section \<open>The statements of a client\<close>

text \<open>
  The statements that change the state: the writes on the three tables, each by the id
  of the row where it addresses one, and the deletion of a user by the identity provider.
  A statement that fails leaves no state.
\<close>

datatype statement =
  InsertMemory memory_stmt
  | UpdateMemory uuid memory_stmt
  | DeleteMemory uuid
  | InsertRecord memory_record_stmt
  | UpdateRecord uuid memory_record_stmt
  | DeleteRecord uuid
  | InsertChatMessage chat_message_stmt
  | UpdateChatMessage uuid chat_message_stmt
  | DeleteChatMessage uuid
  | DeleteUser uuid

fun exec :: "ctx \<Rightarrow> statement \<Rightarrow> db \<Rightarrow> error + db" where
  "exec cx (InsertMemory s) d = insert_memory cx s d"
| "exec cx (UpdateMemory mid s) d = map_sum id fst (update_memory cx mid s d)"
| "exec cx (DeleteMemory mid) d = Inr (fst (delete_memory cx mid d))"
| "exec cx (InsertRecord s) d = insert_memory_record cx s d"
| "exec cx (UpdateRecord rid s) d = map_sum id fst (update_memory_record cx rid s d)"
| "exec cx (DeleteRecord rid) d = Inr (fst (delete_memory_record cx rid d))"
| "exec cx (InsertChatMessage s) d = insert_chat_message cx s d"
| "exec cx (UpdateChatMessage cid s) d = map_sum id fst (update_chat_message cx cid s d)"
| "exec cx (DeleteChatMessage cid) d = Inr (fst (delete_chat_message cx cid d))"
| "exec cx (DeleteUser uid) d = Inr (delete_user uid d)"

text \<open>
  A sequence of statements, each with its own session values and each its own
  transaction: a statement that fails leaves the state as it was.
\<close>

fun run :: "(ctx \<times> statement) list \<Rightarrow> db \<Rightarrow> db" where
  "run [] d = d"
| "run (q # qs) d =
     (case exec (fst q) (snd q) d of
        Inl e \<Rightarrow> run qs d
      | Inr d' \<Rightarrow> run qs d')"

section \<open>A scenario\<close>

text \<open>
  User 1 owns memory 7 and sends fifteen messages, message \<open>k\<close> at time \<open>k\<close>; user 2
  owns memory 8.
\<close>

definition scenario_ctx :: ctx where
  "scenario_ctx = \<lparr>auth_uid = Some 1, now = 100, gen_random_uuid = 0\<rparr>"

definition scenario_db :: db where
  "scenario_db =
     \<lparr>users = [1, 2],
      memories =
        [\<lparr>m_id = 7, m_user_id = 1, m_title = ''M1'', m_description = None,
          m_created_at = 0, m_updated_at = 0\<rparr>,
         \<lparr>m_id = 8, m_user_id = 2, m_title = ''M2'', m_description = None,
          m_created_at = 0, m_updated_at = 0\<rparr>],
      memory_records = [],
      chat_messages = []\<rparr>"

definition scenario_message :: "nat \<Rightarrow> ctx \<times> chat_message_stmt" where
  "scenario_message k =
     (scenario_ctx,
      \<lparr>cs_id = Val (100 - k), cs_user_id = Val 1, cs_memory_id = Val 7, cs_role = Val ''user'',
       cs_content = Val ''hello'', cs_created_at = Val (int k)\<rparr>)"

definition scenario_row :: "nat \<Rightarrow> chat_message" where
  "scenario_row k =
     \<lparr>c_id = 100 - k, c_user_id = 1, c_memory_id = 7, c_role = ''user'',
      c_content = ''hello'', c_created_at = int k\<rparr>"

definition scenario_record :: "uuid \<Rightarrow> uuid \<Rightarrow> memory_record_stmt" where
  "scenario_record u m =
     \<lparr>rs_id = Val 50, rs_memory_id = Val m, rs_user_id = Val u, rs_content = Val ''note'',
      rs_metadata = Omitted, rs_created_at = Omitted\<rparr>"

text \<open>
  A state with rows in both child tables: a record under each memory, ten messages of
  user 1 under memory 7 and one message of user 2 under memory 8.
\<close>

definition scenario_full :: db where
  "scenario_full =
     scenario_db\<lparr>memory_records :=
                   [\<lparr>r_id = 50, r_memory_id = 7, r_user_id = 1, r_content = ''note'',
                     r_metadata = ''{}'', r_created_at = 100\<rparr>,
                    \<lparr>r_id = 51, r_memory_id = 8, r_user_id = 2, r_content = ''other'',
                     r_metadata = ''{}'', r_created_at = 100\<rparr>],
                 chat_messages :=
                   map scenario_row [6..<16]
                   @ [\<lparr>c_id = 1, c_user_id = 2, c_memory_id = 8, c_role = ''user'',
                       c_content = ''hi'', c_created_at = 3\<rparr>]\<rparr>"

text \<open>
  A memory whose timestamps were supplied by its INSERT and lie ahead of the server
  clock, and an UPDATE that renames a memory and supplies an updated_at of its own.
\<close>

definition scenario_future_memory :: memory_stmt where
  "scenario_future_memory =
     \<lparr>ms_id = Val 9, ms_user_id = Val 1, ms_title = Val ''later'', ms_description = Omitted,
      ms_created_at = Val 500, ms_updated_at = Val 500\<rparr>"

definition scenario_future_row :: "string \<Rightarrow> timestamptz \<Rightarrow> memory" where
  "scenario_future_row t u =
     \<lparr>m_id = 9, m_user_id = 1, m_title = t, m_description = None,
      m_created_at = 500, m_updated_at = u\<rparr>"

definition scenario_future_db :: db where
  "scenario_future_db =
     scenario_db\<lparr>memories := memories scenario_db @ [scenario_future_row ''later'' 500]\<rparr>"

definition retitle :: "string \<Rightarrow> memory_stmt" where
  "retitle t =
     \<lparr>ms_id = Omitted, ms_user_id = Omitted, ms_title = Val t, ms_description = Omitted,
      ms_created_at = Omitted, ms_updated_at = Val 0\<rparr>"


text \<open>
  The fifteen INSERTs of the scenario as statements of user 1.
\<close>

definition scenario_inserts :: "(ctx \<times> statement) list" where
  "scenario_inserts =
     map (\<lambda>k. (fst (scenario_message k), InsertChatMessage (snd (scenario_message k)))) [1..<16]"

section \<open>Predicates of the specification\<close>

text \<open>
  The pairing that the specification asks of the proposed row of a record or a chat
  message: the statement gives an owner and a parent, the owner is the caller, and the
  parent memory exists and belongs to the caller.
\<close>

definition owner_parent_pairing :: "ctx \<Rightarrow> db \<Rightarrow> uuid col \<Rightarrow> uuid col \<Rightarrow> bool" where
  "owner_parent_pairing cx d ucol mcol \<longleftrightarrow>
     (case ucol of
        Val u \<Rightarrow>
          (case mcol of
             Val m \<Rightarrow>
               auth_uid cx = Some u
               \<and> (\<exists>M \<in> set (memories d). m_id M = m \<and> m_user_id M = u)
           | _ \<Rightarrow> False)
      | _ \<Rightarrow> False)"


text \<open>
  The primary keys of the three tables as a predicate on a state.
\<close>

definition primary_keys :: "db \<Rightarrow> bool" where
  "primary_keys d \<longleftrightarrow>
     distinct (map m_id (memories d))
     \<and> distinct (map r_id (memory_records d))
     \<and> distinct (map c_id (chat_messages d))"

section \<open>The order of the retention trigger\<close>

lemma newer_asym: "newer a b \<Longrightarrow> \<not> newer b a"
  by (auto simp: newer_def)

lemma newer_irrefl: "\<not> newer a a"
  by (simp add: newer_def)

lemma newer_trans: "newer a b \<Longrightarrow> newer b c \<Longrightarrow> newer a c"
  by (auto simp: newer_def)

lemma newer_total: "c_id a \<noteq> c_id b \<Longrightarrow> newer a b \<or> newer b a"
  by (auto simp: newer_def)

lemma not_newer_trans: "\<not> newer z y \<Longrightarrow> newer x y \<Longrightarrow> \<not> newer z x"
  by (auto simp: newer_def)

lemma set_insert_desc: "set (insert_desc x xs) = insert x (set xs)"
  by (induction xs) auto

lemma length_insert_desc: "length (insert_desc x xs) = Suc (length xs)"
  by (induction xs) auto

lemma sorted_insert_desc:
  "sorted_wrt (\<lambda>a b. \<not> newer b a) xs \<Longrightarrow> sorted_wrt (\<lambda>a b. \<not> newer b a) (insert_desc x xs)"
  by (induction xs) (auto simp: set_insert_desc dest: newer_asym not_newer_trans)

lemma take_insert_desc: "take n (insert_desc x (take n xs)) = take n (insert_desc x xs)"
proof (induction xs arbitrary: n)
  case Nil
  then show ?case by simp
next
  case (Cons y ys)
  show ?case
  proof (cases n)
    case 0
    then show ?thesis by simp
  next
    case (Suc k)
    then show ?thesis using Cons.IH [of k] by (cases k) auto
  qed
qed

lemma set_fold_insert_desc: "set (fold insert_desc xs acc) = set xs \<union> set acc"
  by (induction xs arbitrary: acc) (auto simp: set_insert_desc)

lemma length_fold_insert_desc: "length (fold insert_desc xs acc) = length xs + length acc"
  by (induction xs arbitrary: acc) (auto simp: length_insert_desc)

lemma sorted_fold_insert_desc:
  "sorted_wrt (\<lambda>a b. \<not> newer b a) acc \<Longrightarrow> sorted_wrt (\<lambda>a b. \<not> newer b a) (fold insert_desc xs acc)"
  by (induction xs arbitrary: acc) (auto simp: sorted_insert_desc)

lemma set_order_by: "set (order_by_created_at_desc_id_desc xs) = set xs"
  by (simp add: order_by_created_at_desc_id_desc_def set_fold_insert_desc)

lemma length_order_by: "length (order_by_created_at_desc_id_desc xs) = length xs"
  by (simp add: order_by_created_at_desc_id_desc_def length_fold_insert_desc)

lemma sorted_order_by: "sorted_wrt (\<lambda>a b. \<not> newer b a) (order_by_created_at_desc_id_desc xs)"
  by (simp add: order_by_created_at_desc_id_desc_def sorted_fold_insert_desc)

lemma order_by_snoc:
  "order_by_created_at_desc_id_desc (xs @ [x]) = insert_desc x (order_by_created_at_desc_id_desc xs)"
  by (simp add: order_by_created_at_desc_id_desc_def)

lemma newest_first_unique:
  "sorted_wrt (\<lambda>a b. \<not> newer b a) xs \<Longrightarrow> sorted_wrt (\<lambda>a b. \<not> newer b a) ys \<Longrightarrow>
   set xs = set ys \<Longrightarrow> distinct (map c_id xs) \<Longrightarrow> distinct (map c_id ys) \<Longrightarrow> xs = ys"
proof (induction xs arbitrary: ys)
  case Nil
  then show ?case by simp
next
  case (Cons x xs)
  then obtain y ys' where ys: "ys = y # ys'" by (cases ys) auto
  have xy: "x = y"
  proof (rule ccontr)
    assume ne: "x \<noteq> y"
    with Cons.prems ys have "x \<in> set ys'" "y \<in> set xs" by auto
    with Cons.prems ys have "\<not> newer x y" "\<not> newer y x" "c_id x \<noteq> c_id y" by auto
    then show False using newer_total by blast
  qed
  have "x \<notin> set xs" "y \<notin> set ys'" using Cons.prems(4,5) ys by auto
  with Cons.prems(3) ys xy have "set xs = set ys'" by auto
  with Cons.prems ys have "xs = ys'" by (intro Cons.IH) auto
  with xy ys show ?case by simp
qed

lemma distinct_ids_insert_desc:
  "distinct (map c_id (insert_desc x xs)) \<longleftrightarrow> c_id x \<notin> c_id ` set xs \<and> distinct (map c_id xs)"
  by (induction xs) (auto simp: set_insert_desc)

lemma distinct_ids_fold_insert_desc:
  "distinct (map c_id (fold insert_desc xs acc)) \<longleftrightarrow> distinct (map c_id (xs @ acc))"
  by (induction xs arbitrary: acc) (auto simp: distinct_ids_insert_desc set_fold_insert_desc set_insert_desc)

lemma distinct_ids_order_by:
  "distinct (map c_id (order_by_created_at_desc_id_desc xs)) \<longleftrightarrow> distinct (map c_id xs)"
  by (simp add: order_by_created_at_desc_id_desc_def distinct_ids_fold_insert_desc)

text \<open>
  The DELETE of the trigger on the rows of one pair.
\<close>

lemma prune_transcript:
  assumes d: "distinct (map c_id T)"
  defines "S \<equiv> order_by_created_at_desc_id_desc T"
  shows "order_by_created_at_desc_id_desc (filter (\<lambda>c. c_id c \<notin> set (map c_id (drop 10 S))) T) = take 10 S"
proof -
  let ?K = "filter (\<lambda>c. c_id c \<notin> set (map c_id (drop 10 S))) T"
  have dS: "distinct (map c_id S)" using d by (simp add: S_def distinct_ids_order_by)
  have setS: "set S = set T" by (simp add: S_def set_order_by)
  have inj: "inj_on c_id (set S)" using dS by (simp add: distinct_map)
  have mem: "c_id c \<in> set (map c_id (drop 10 S)) \<longleftrightarrow> c \<in> set (drop 10 S)" if "c \<in> set T" for c
  proof
    assume "c_id c \<in> set (map c_id (drop 10 S))"
    then obtain c' where c': "c' \<in> set (drop 10 S)" "c_id c' = c_id c" by auto
    then have "c' \<in> set S" by (meson in_set_dropD)
    with inj c'(2) that setS have "c' = c" by (auto simp: inj_on_def)
    with c'(1) show "c \<in> set (drop 10 S)" by simp
  qed auto
  have dist: "distinct S" using dS by (simp add: distinct_map)
  have split: "set (take 10 S) \<inter> set (drop 10 S) = {}"
    using dist by (simp add: set_take_disj_set_drop_if_distinct)
  have un: "set (take 10 S) \<union> set (drop 10 S) = set S"
    by (metis append_take_drop_id set_append)
  have setK: "set ?K = set (take 10 S)"
    using mem split un setS by auto
  have "sorted_wrt (\<lambda>a b. \<not> newer b a) S" by (simp add: S_def sorted_order_by)
  then have sT: "sorted_wrt (\<lambda>a b. \<not> newer b a) (take 10 S)"
    by (metis append_take_drop_id sorted_wrt_append)
  have dK: "distinct (map c_id ?K)" using d by (simp add: distinct_map_filter)
  have "distinct (map c_id (take 10 S))" using dS by (simp add: take_map [symmetric])
  with sT setK dK show ?thesis
    by (intro newest_first_unique) (simp_all add: sorted_order_by set_order_by distinct_ids_order_by)
qed

section \<open>What the DELETE of the trigger would do\<close>

text \<open>
  The statement in the body of the function, taken by itself, is the rolling window
  that the comment above the function describes: for a caller who owns the memory of
  \<^verbatim>\<open>NEW\<close>, in a table that satisfies its primary key, it leaves of the pair of
  \<^verbatim>\<open>NEW\<close> the first 10 rows in the order of the subquery, and it leaves a pair of at
  most 10 rows as it is.
\<close>

lemma prune_delete_pair:
  assumes pol: "chat_policy cx d (Some (c_user_id NEW)) (Some (c_memory_id NEW))"
    and dist: "distinct (map c_id (chat_messages d))"
  shows "order_by_created_at_desc_id_desc
           (transcript (c_user_id NEW) (c_memory_id NEW) (chat_messages (prune_delete cx NEW d)))
         = take 10 (order_by_created_at_desc_id_desc
             (transcript (c_user_id NEW) (c_memory_id NEW) (chat_messages d)))"
proof -
  let ?u = "c_user_id NEW" and ?m = "c_memory_id NEW"
  let ?T = "transcript ?u ?m (chat_messages d)"
  let ?old = "map c_id (drop 10 (order_by_created_at_desc_id_desc ?T))"
  have vis: "transcript ?u ?m (filter (chat_row_policy cx d) (chat_messages d)) = ?T"
    unfolding transcript_def filter_filter
    by (rule filter_cong) (auto simp: chat_row_policy_def pol)
  have d': "prune_delete cx NEW d = d\<lparr>chat_messages :=
      filter (\<lambda>c. \<not> (chat_row_policy cx d c \<and> c_id c \<in> set ?old)) (chat_messages d)\<rparr>"
    by (simp add: prune_delete_def vis Let_def)
  have "transcript ?u ?m (chat_messages (prune_delete cx NEW d))
          = filter (\<lambda>c. c_id c \<notin> set ?old) ?T"
    unfolding d' transcript_def by (simp add: chat_row_policy_def pol conj_commute cong: conj_cong)
  moreover have "distinct (map c_id ?T)"
    using dist by (simp add: transcript_def distinct_map_filter)
  ultimately show ?thesis
    using prune_transcript [of ?T] by simp
qed

lemma prune_delete_compliant:
  assumes "length (transcript (c_user_id NEW) (c_memory_id NEW) (chat_messages d)) \<le> 10"
  shows "prune_delete cx NEW d = d"
proof -
  let ?T = "transcript (c_user_id NEW) (c_memory_id NEW)"
  have "?T (filter (chat_row_policy cx d) (chat_messages d))
          = filter (chat_row_policy cx d) (?T (chat_messages d))"
    by (auto simp: transcript_def intro: filter_cong)
  moreover have "length (filter (chat_row_policy cx d) (?T (chat_messages d)))
                  \<le> length (?T (chat_messages d))"
    by (rule length_filter_le)
  ultimately have "length (?T (filter (chat_row_policy cx d) (chat_messages d))) \<le> 10"
    using assms by (metis order_trans)
  then have "drop 10 (order_by_created_at_desc_id_desc
               (?T (filter (chat_row_policy cx d) (chat_messages d)))) = []"
    by (simp add: length_order_by)
  then show ?thesis by (simp add: prune_delete_def)
qed

section \<open>What the trigger does\<close>

text \<open>
  The reference \<^verbatim>\<open>old.id\<close> names both the subquery alias and a field of the trigger
  record \<^verbatim>\<open>OLD\<close>: the function raises on every call, and with it every INSERT into
  chat_messages that reaches the trigger. No INSERT into chat_messages returns a state.
\<close>

lemma prune_chat_messages_raises: "prune_chat_messages cx NEW d = Inl AmbiguousColumn"
  by (simp add: prune_chat_messages_def column_ref_def trigger_records_def)

lemma insert_chat_message_never_succeeds: "insert_chat_message cx s d \<noteq> Inr d'"
  by (simp add: insert_chat_message_def prune_chat_messages_raises Let_def split: sum.splits)



section \<open>Fifteen messages\<close>

text \<open>
  Claim C1, at the scenario of the specification. User 1 sends fifteen messages with
  strictly increasing created_at into the own memory 7. Each INSERT passes its policy and
  its constraints and is then aborted by the trigger, which raises "column reference is
  ambiguous"; with every statement its own transaction the table ends as it began, with
  no row of the pair, where the claim asks for messages 6 to 15.
\<close>

theorem chat_inserts_store_nothing:
  "exec scenario_ctx (InsertChatMessage (snd (scenario_message 1))) scenario_db
     = Inl AmbiguousColumn
   \<and> run scenario_inserts scenario_db = scenario_db
   \<and> transcript 1 7 (chat_messages (run scenario_inserts scenario_db)) = []
   \<and> length scenario_inserts = 15"
proof -
  have a: "exec scenario_ctx (InsertChatMessage (snd (scenario_message 1))) scenario_db
     = Inl AmbiguousColumn"
    by code_simp
  have b: "run scenario_inserts scenario_db = scenario_db"
    by code_simp
  have c: "chat_messages scenario_db = []" by (simp add: scenario_db_def)
  have d: "length scenario_inserts = 15" by (simp add: scenario_inserts_def)
  from a b c d show ?thesis by (simp add: transcript_def)
qed

section \<open>Pruning a transcript that is within the window\<close>

text \<open>
  Claim C8, at a transcript of one row. User 1 sends the first message into the empty
  table; the trigger function runs for that row, on a pair that holds this one row and
  so is within the window. It does not return the state unchanged: it raises "column
  reference is ambiguous", as on every call, and the INSERT that fired it fails.
\<close>

theorem prune_raises_on_compliant_transcript:
  "length (transcript (c_user_id (scenario_row 1)) (c_memory_id (scenario_row 1))
      (chat_messages (scenario_db\<lparr>chat_messages := chat_messages scenario_db @ [scenario_row 1]\<rparr>)))
     = 1
   \<and> prune_chat_messages scenario_ctx (scenario_row 1)
        (scenario_db\<lparr>chat_messages := chat_messages scenario_db @ [scenario_row 1]\<rparr>)
       = Inl AmbiguousColumn
   \<and> insert_chat_message scenario_ctx (snd (scenario_message 1)) scenario_db
       = Inl AmbiguousColumn"
proof -
  have a: "length (transcript (c_user_id (scenario_row 1)) (c_memory_id (scenario_row 1))
      (chat_messages (scenario_db\<lparr>chat_messages := chat_messages scenario_db @ [scenario_row 1]\<rparr>)))
     = 1"
    by code_simp
  have b: "insert_chat_message scenario_ctx (snd (scenario_message 1)) scenario_db
       = Inl AmbiguousColumn"
    by code_simp
  from a b show ?thesis by (simp add: prune_chat_messages_raises)
qed

section \<open>Statements that select no row\<close>

lemma update_where_none:
  "\<forall>x \<in> set xs. \<not> sel x \<Longrightarrow> update_where sel f xs = Inr (xs, [])"
  by (induction xs) auto

lemma update_where_rows:
  "update_where sel f xs = Inr (ys, ret) \<Longrightarrow>
     list_all2 (\<lambda>x y. if sel x then f x = Inr y else y = x) xs ys
     \<and> list_all2 (\<lambda>x y. f x = Inr y) (filter sel xs) ret
     \<and> set ret \<subseteq> set ys"
proof (induction xs arbitrary: ys ret)
  case Nil
  then show ?case by simp
next
  case (Cons x xs)
  show ?case
  proof (cases "sel x")
    case True
    with Cons.prems obtain y ys' ret' where y: "f x = Inr y"
      and r: "update_where sel f xs = Inr (ys', ret')" and e: "ys = y # ys'" "ret = y # ret'"
      by (auto split: sum.splits)
    from Cons.IH [OF r] True y e show ?thesis by auto
  next
    case False
    with Cons.prems obtain ys' where r: "update_where sel f xs = Inr (ys', ret)" and e: "ys = x # ys'"
      by (auto split: sum.splits)
    from Cons.IH [OF r] False e show ?thesis by auto
  qed
qed

lemma update_where_kept:
  "update_where sel f xs = Inr (ys, ret) \<Longrightarrow> x \<in> set xs \<Longrightarrow> \<not> sel x \<Longrightarrow> x \<in> set ys"
proof (induction xs arbitrary: ys ret)
  case Nil
  then show ?case by simp
next
  case (Cons a xs)
  then show ?case by (auto split: if_splits sum.splits)
qed

lemma update_where_single:
  assumes "distinct xs" and "c \<in> set xs" and "\<forall>x \<in> set xs. sel x \<longleftrightarrow> x = c" and "f c = Inr c'"
  shows "update_where sel f xs = Inr (map (\<lambda>x. if x = c then c' else x) xs, [c'])"
  using assms(1,2,3)
proof (induction xs)
  case Nil
  then show ?case by simp
next
  case (Cons x xs)
  show ?case
  proof (cases "x = c")
    case True
    with Cons.prems have notin: "c \<notin> set xs" and none: "\<forall>y \<in> set xs. \<not> sel y" by auto
    from notin have "map (\<lambda>x. if x = c then c' else x) xs = xs" by (induction xs) auto
    with True Cons.prems(3) assms(4) update_where_none [OF none, of f] show ?thesis by simp
  next
    case False
    with Cons.prems have "c \<in> set xs" "distinct xs" "\<forall>y \<in> set xs. sel y \<longleftrightarrow> y = c" "\<not> sel x"
      by auto
    with Cons.IH False show ?thesis by simp
  qed
qed

lemma no_memory_selected:
  assumes "M \<in> set (memories d)" and "auth_uid cx \<noteq> Some (m_user_id M)"
    and "distinct (map m_id (memories d))"
  shows "\<forall>m \<in> set (memories d). \<not> (memories_policy cx (Some (m_user_id m)) \<and> m_id m = m_id M)"
proof
  fix m assume m: "m \<in> set (memories d)"
  show "\<not> (memories_policy cx (Some (m_user_id m)) \<and> m_id m = m_id M)"
  proof
    assume a: "memories_policy cx (Some (m_user_id m)) \<and> m_id m = m_id M"
    with m assms(1,3) have "m = M" by (auto simp: distinct_map inj_on_def)
    with a assms(2) show False by (auto simp: memories_policy_def sql_eq_def)
  qed
qed

lemma filter_eq_single: "distinct xs \<Longrightarrow> x \<in> set xs \<Longrightarrow> filter (\<lambda>y. y = x) xs = [x]"
  by (induction xs) (auto simp: filter_empty_conv)

section \<open>A memory of another user\<close>

text \<open>
  Claim C2. Let \<open>M\<close> be a memory and let the caller not be its owner (or not be
  signed in). A SELECT, an UPDATE and a DELETE of \<open>M\<close> by its id all succeed on no row:
  the SELECT returns nothing, the UPDATE and the DELETE change nothing and return
  nothing. This zero-row outcome is what a caller sees as not found, and it is the
  outcome of the same three statements on the state in which \<open>M\<close> does not exist.
\<close>

theorem memory_of_another_user_not_found:
  assumes "M \<in> set (memories d)" and "auth_uid cx \<noteq> Some (m_user_id M)"
    and "distinct (map m_id (memories d))"
  shows "select_memory cx (m_id M) d = []
     \<and> update_memory cx (m_id M) s d = Inr (d, [])
     \<and> delete_memory cx (m_id M) d = (d, [])
     \<and> select_memory cx (m_id M) (d\<lparr>memories := removeAll M (memories d)\<rparr>) = []
     \<and> update_memory cx (m_id M) s (d\<lparr>memories := removeAll M (memories d)\<rparr>)
         = Inr (d\<lparr>memories := removeAll M (memories d)\<rparr>, [])
     \<and> delete_memory cx (m_id M) (d\<lparr>memories := removeAll M (memories d)\<rparr>)
         = (d\<lparr>memories := removeAll M (memories d)\<rparr>, [])"
proof -
  let ?sel = "\<lambda>m. memories_policy cx (Some (m_user_id m)) \<and> m_id m = m_id M"
  let ?a = "d\<lparr>memories := removeAll M (memories d)\<rparr>"
  have none: "\<forall>m \<in> set (memories d). \<not> ?sel m"
    by (rule no_memory_selected [OF assms])
  then have none_a: "\<forall>m \<in> set (memories ?a). \<not> ?sel m" by simp
  have f: "filter ?sel (memories d) = []" using none by (simp add: filter_empty_conv)
  have nf: "filter (\<lambda>m. \<not> ?sel m) (memories d) = memories d" using none by (simp add: filter_id_conv)
  have fa: "filter ?sel (memories ?a) = []" using none_a by (simp add: filter_empty_conv)
  have nfa: "filter (\<lambda>m. \<not> ?sel m) (memories ?a) = memories ?a"
    using none_a by (simp add: filter_id_conv)
  have 1: "select_memory cx (m_id M) d = []" using f by (simp add: select_memory_def)
  have 2: "update_memory cx (m_id M) s d = Inr (d, [])"
    using update_where_none [OF none] by (simp add: update_memory_def)
  have 3: "delete_memory cx (m_id M) d = (d, [])"
    unfolding delete_memory_def Let_def f nf by simp
  have 4: "select_memory cx (m_id M) ?a = []" using fa by (simp add: select_memory_def)
  have 5: "update_memory cx (m_id M) s ?a = Inr (?a, [])"
    using update_where_none [OF none_a] by (simp add: update_memory_def)
  have 6: "delete_memory cx (m_id M) ?a = (?a, [])"
    unfolding delete_memory_def Let_def fa nfa by simp
  from 1 2 3 4 5 6 show ?thesis by blast
qed

text \<open>
  User 1 looks up memory 8 of user 2 in the scenario; user 2 sees it.
\<close>

theorem memory_of_another_user_not_found_witness:
  "memories scenario_db ! 1 \<in> set (memories scenario_db)
   \<and> auth_uid scenario_ctx \<noteq> Some (m_user_id (memories scenario_db ! 1))
   \<and> distinct (map m_id (memories scenario_db))
   \<and> m_id (memories scenario_db ! 1) = 8
   \<and> select_memory scenario_ctx 8 scenario_db = []
   \<and> update_memory scenario_ctx 8 (retitle ''mine'') scenario_db = Inr (scenario_db, [])
   \<and> delete_memory scenario_ctx 8 scenario_db = (scenario_db, [])
   \<and> select_memory (scenario_ctx\<lparr>auth_uid := Some 2\<rparr>) 8 scenario_db = [memories scenario_db ! 1]"
proof -
  have a: "memories scenario_db ! 1 \<in> set (memories scenario_db)"
    by (simp add: scenario_db_def)
  have b: "auth_uid scenario_ctx \<noteq> Some (m_user_id (memories scenario_db ! 1))"
    by (simp add: scenario_db_def scenario_ctx_def)
  have c: "distinct (map m_id (memories scenario_db))"
    by (simp add: scenario_db_def)
  have i: "m_id (memories scenario_db ! 1) = 8" by (simp add: scenario_db_def)
  have o: "select_memory (scenario_ctx\<lparr>auth_uid := Some 2\<rparr>) 8 scenario_db = [memories scenario_db ! 1]"
    by (simp add: select_memory_def memories_policy_def sql_eq_def scenario_db_def)
  from memory_of_another_user_not_found [OF a b c, of "retitle ''mine''"]
  show ?thesis using a b c i o by simp
qed

section \<open>The owner and parent of a proposed row\<close>

lemma sql_eq_Some_right: "sql_eq a (Some y) \<longleftrightarrow> a = Some y"
  by (auto simp: sql_eq_def)

lemma sql_eq_Some_left: "sql_eq (Some x) b \<longleftrightarrow> b = Some x"
  by (auto simp: sql_eq_def)

lemma sql_eq_None: "\<not> sql_eq a None"
  by (auto simp: sql_eq_def)

lemma exists_own_memory_iff:
  "exists_own_memory cx d mid \<longleftrightarrow>
     (\<exists>M \<in> set (memories d). auth_uid cx = Some (m_user_id M) \<and> mid = Some (m_id M))"
  unfolding exists_own_memory_def memories_policy_def sql_eq_Some_right sql_eq_Some_left
  by blast

lemma child_policy_pairing:
  "(sql_eq (auth_uid cx) (col_value None ucol) \<and> exists_own_memory cx d (col_value None mcol))
     = owner_parent_pairing cx d ucol mcol"
proof (cases ucol)
  case (Val u)
  show ?thesis
  proof (cases mcol)
    case (Val m)
    show ?thesis
      unfolding \<open>ucol = Val u\<close> Val owner_parent_pairing_def exists_own_memory_iff
      by (simp add: sql_eq_Some_right) fastforce
  qed (simp_all add: owner_parent_pairing_def exists_own_memory_iff Val)
qed (simp_all add: owner_parent_pairing_def sql_eq_None)

lemma insert_memory_record_rls:
  "\<not> owner_parent_pairing cx d (rs_user_id s) (rs_memory_id s) \<Longrightarrow>
     insert_memory_record cx s d = Inl RlsViolation"
  using child_policy_pairing [of cx "rs_user_id s" d "rs_memory_id s"]
  by (simp add: insert_memory_record_def records_policy_def memory_records_new_def Let_def)

lemma insert_chat_message_rls:
  "\<not> owner_parent_pairing cx d (cs_user_id s) (cs_memory_id s) \<Longrightarrow>
     insert_chat_message cx s d = Inl RlsViolation"
  using child_policy_pairing [of cx "cs_user_id s" d "cs_memory_id s"]
  by (simp add: insert_chat_message_def chat_policy_def chat_messages_new_def Let_def)

text \<open>
  Claim C3. An INSERT into memory_records or chat_messages succeeds only if the proposed
  row names the caller as owner and a memory of the caller as parent; with any other
  pairing the statement fails on its WITH CHECK policy and returns no state, so no row
  is written.
\<close>

theorem insert_checks_owner_and_parent:
  "(insert_memory_record cx s d = Inr d' \<longrightarrow>
      owner_parent_pairing cx d (rs_user_id s) (rs_memory_id s))
   \<and> (\<not> owner_parent_pairing cx d (rs_user_id s) (rs_memory_id s) \<longrightarrow>
      insert_memory_record cx s d = Inl RlsViolation)
   \<and> (insert_chat_message cx t d = Inr d'' \<longrightarrow>
      owner_parent_pairing cx d (cs_user_id t) (cs_memory_id t))
   \<and> (\<not> owner_parent_pairing cx d (cs_user_id t) (cs_memory_id t) \<longrightarrow>
      insert_chat_message cx t d = Inl RlsViolation)"
proof -
  have "owner_parent_pairing cx d (rs_user_id s) (rs_memory_id s)"
    if "insert_memory_record cx s d = Inr d'"
    using that insert_memory_record_rls [of cx d s] by fastforce
  moreover have "owner_parent_pairing cx d (cs_user_id t) (cs_memory_id t)"
    if "insert_chat_message cx t d = Inr d''"
    using that insert_chat_message_rls [of cx d t] by fastforce
  ultimately show ?thesis
    using insert_memory_record_rls [of cx d s] insert_chat_message_rls [of cx d t] by blast
qed

text \<open>
  User 1 proposes a record under memory 8 of user 2, and a chat message owned by user 2
  under the own memory 7: both are refused. The record under memory 7 is stored.
\<close>

theorem insert_checks_owner_and_parent_witness:
  "\<not> owner_parent_pairing scenario_ctx scenario_db (rs_user_id (scenario_record 1 8))
        (rs_memory_id (scenario_record 1 8))
   \<and> insert_memory_record scenario_ctx (scenario_record 1 8) scenario_db = Inl RlsViolation
   \<and> \<not> owner_parent_pairing scenario_ctx scenario_db (cs_user_id (snd (scenario_message 1)\<lparr>cs_user_id := Val 2\<rparr>))
        (cs_memory_id (snd (scenario_message 1)\<lparr>cs_user_id := Val 2\<rparr>))
   \<and> insert_chat_message scenario_ctx (snd (scenario_message 1)\<lparr>cs_user_id := Val 2\<rparr>) scenario_db
       = Inl RlsViolation
   \<and> insert_memory_record scenario_ctx (scenario_record 1 7) scenario_db
       = Inr (scenario_db\<lparr>memory_records :=
            [\<lparr>r_id = 50, r_memory_id = 7, r_user_id = 1, r_content = ''note'',
              r_metadata = ''{}'', r_created_at = 100\<rparr>]\<rparr>)
   \<and> owner_parent_pairing scenario_ctx scenario_db (rs_user_id (scenario_record 1 7))
        (rs_memory_id (scenario_record 1 7))"
proof -
  have a: "\<not> owner_parent_pairing scenario_ctx scenario_db (rs_user_id (scenario_record 1 8))
        (rs_memory_id (scenario_record 1 8))"
    by (simp add: owner_parent_pairing_def scenario_record_def scenario_ctx_def scenario_db_def)
  have b: "\<not> owner_parent_pairing scenario_ctx scenario_db
        (cs_user_id (snd (scenario_message 1)\<lparr>cs_user_id := Val 2\<rparr>))
        (cs_memory_id (snd (scenario_message 1)\<lparr>cs_user_id := Val 2\<rparr>))"
    by (simp add: owner_parent_pairing_def scenario_message_def scenario_ctx_def scenario_db_def)
  have c: "insert_memory_record scenario_ctx (scenario_record 1 7) scenario_db
       = Inr (scenario_db\<lparr>memory_records :=
            [\<lparr>r_id = 50, r_memory_id = 7, r_user_id = 1, r_content = ''note'',
              r_metadata = ''{}'', r_created_at = 100\<rparr>]\<rparr>)"
    by code_simp
  from insert_checks_owner_and_parent [of scenario_ctx "scenario_record 1 8" scenario_db _
      "snd (scenario_message 1)\<lparr>cs_user_id := Val 2\<rparr>"]
    insert_checks_owner_and_parent [of scenario_ctx "scenario_record 1 7" scenario_db]
  show ?thesis using a b c by blast
qed

section \<open>Deleting a memory\<close>

text \<open>
  Claim C4. When the owner deletes memory \<open>M\<close> (in a table that satisfies its primary
  key), the one statement removes \<open>M\<close> and every record and chat message whose
  memory_id is the id of \<open>M\<close>, and nothing else: afterwards no memory has that id, no
  record and no chat message references it, and if every child row referenced an
  existing memory before, this still holds.
\<close>

theorem delete_memory_cascades:
  assumes own: "M \<in> set (memories d)" "auth_uid cx = Some (m_user_id M)"
    and pk: "distinct (map m_id (memories d))"
  shows "snd (delete_memory cx (m_id M) d) = [M]
     \<and> m_id M \<notin> set (map m_id (memories (fst (delete_memory cx (m_id M) d))))
     \<and> m_id M \<notin> set (map r_memory_id (memory_records (fst (delete_memory cx (m_id M) d))))
     \<and> m_id M \<notin> set (map c_memory_id (chat_messages (fst (delete_memory cx (m_id M) d))))
     \<and> memories (fst (delete_memory cx (m_id M) d)) = removeAll M (memories d)
     \<and> memory_records (fst (delete_memory cx (m_id M) d))
         = filter (\<lambda>r. r_memory_id r \<noteq> m_id M) (memory_records d)
     \<and> chat_messages (fst (delete_memory cx (m_id M) d))
         = filter (\<lambda>c. c_memory_id c \<noteq> m_id M) (chat_messages d)
     \<and> users (fst (delete_memory cx (m_id M) d)) = users d
     \<and> (references_memories d \<longrightarrow> references_memories (fst (delete_memory cx (m_id M) d)))"
proof -
  let ?sel = "\<lambda>m. memories_policy cx (Some (m_user_id m)) \<and> m_id m = m_id M"
  have sel: "?sel m \<longleftrightarrow> m = M" if "m \<in> set (memories d)" for m
    using that own pk by (auto simp: memories_policy_def sql_eq_def distinct_map inj_on_def)
  have dM: "distinct (memories d)" using pk by (simp add: distinct_map)
  have gone: "filter ?sel (memories d) = [M]"
  proof -
    have "filter ?sel (memories d) = filter (\<lambda>m. m = M) (memories d)"
      by (rule filter_cong) (simp_all add: sel)
    also have "\<dots> = [M]"
      using own(1) dM by (simp add: filter_eq_single)
    finally show ?thesis .
  qed
  have kept: "filter (\<lambda>m. \<not> ?sel m) (memories d) = removeAll M (memories d)"
    unfolding removeAll_filter_not_eq by (rule filter_cong) (auto simp: sel)
  let ?d' = "d\<lparr>memories := removeAll M (memories d),
               memory_records := filter (\<lambda>r. r_memory_id r \<noteq> m_id M) (memory_records d),
               chat_messages := filter (\<lambda>c. c_memory_id c \<noteq> m_id M) (chat_messages d)\<rparr>"
  have res: "delete_memory cx (m_id M) d = (?d', [M])"
    unfolding delete_memory_def Let_def gone kept by simp
  have gone_id: "m_id M \<notin> set (map m_id (removeAll M (memories d)))"
    using pk own(1) by (auto simp: distinct_map inj_on_def)
  have refs: "references_memories ?d'" if r: "references_memories d"
  proof -
    have "k \<in> set (map m_id (removeAll M (memories d)))"
      if "k \<in> set (map m_id (memories d))" "k \<noteq> m_id M" for k
      using that by auto
    with r show ?thesis by (auto simp: references_memories_def)
  qed
  have norec: "m_id M \<notin> set (map r_memory_id (filter (\<lambda>r. r_memory_id r \<noteq> m_id M) (memory_records d)))"
    by auto
  have nochat: "m_id M \<notin> set (map c_memory_id (filter (\<lambda>c. c_memory_id c \<noteq> m_id M) (chat_messages d)))"
    by auto
  show ?thesis unfolding res using gone_id refs norec nochat by simp
qed

text \<open>
  User 1 deletes memory 7: what is left is memory 8 with its record and its message.
\<close>

theorem delete_memory_cascades_witness:
  "hd (memories scenario_full) \<in> set (memories scenario_full)
   \<and> auth_uid scenario_ctx = Some (m_user_id (hd (memories scenario_full)))
   \<and> distinct (map m_id (memories scenario_full))
   \<and> references_memories scenario_full
   \<and> m_id (hd (memories scenario_full)) = 7
   \<and> map m_id (memories (fst (delete_memory scenario_ctx 7 scenario_full))) = [8]
   \<and> map r_id (memory_records (fst (delete_memory scenario_ctx 7 scenario_full))) = [51]
   \<and> map c_id (chat_messages (fst (delete_memory scenario_ctx 7 scenario_full))) = [1]
   \<and> references_memories (fst (delete_memory scenario_ctx 7 scenario_full))"
proof -
  have a: "hd (memories scenario_full) \<in> set (memories scenario_full)"
    by (simp add: scenario_full_def scenario_db_def)
  have b: "auth_uid scenario_ctx = Some (m_user_id (hd (memories scenario_full)))"
    by (simp add: scenario_full_def scenario_db_def scenario_ctx_def)
  have c: "distinct (map m_id (memories scenario_full))"
    by (simp add: scenario_full_def scenario_db_def)
  have r: "references_memories scenario_full"
    by (simp add: references_memories_def scenario_full_def scenario_db_def scenario_row_def)
  have i: "m_id (hd (memories scenario_full)) = 7"
    by (simp add: scenario_full_def scenario_db_def)
  have m: "map m_id (removeAll (hd (memories scenario_full)) (memories scenario_full)) = [8]"
    by (simp add: scenario_full_def scenario_db_def)
  have rr: "map r_id (filter (\<lambda>r. r_memory_id r \<noteq> 7) (memory_records scenario_full)) = [51]"
    by (simp add: scenario_full_def scenario_db_def)
  have cc: "map c_id (filter (\<lambda>c. c_memory_id c \<noteq> 7) (chat_messages scenario_full)) = [1]"
    by (simp add: scenario_full_def scenario_db_def scenario_row_def)
  from delete_memory_cascades [OF a b c]
  show ?thesis using a b c r i m rr cc by simp
qed

section \<open>The timestamp of an UPDATE of memories\<close>

lemma update_memory_row_updated_at:
  "update_memory_row cx s d old = Inr new \<Longrightarrow> m_updated_at new = now cx"
  by (auto simp: update_memory_row_def memories_constraints_def memories_not_null_def
      set_updated_at_def Let_def split: if_splits option.splits sum.splits Option.bind_splits)

text \<open>
  Claim C5, as the schema has it. Every row that an UPDATE of memories changes is stored
  with updated_at equal to \<^verbatim>\<open>now()\<close>, whatever the statement supplied for the
  column. The new updated_at is at least the previous one exactly when \<^verbatim>\<open>now()\<close> is
  at least the previous one, and updated_at is at least created_at after the update
  exactly when the created_at of the new row is at most \<^verbatim>\<open>now()\<close>.
\<close>

theorem update_memory_stamps_server_time:
  assumes "update_memory cx mid s d = Inr (d', ret)"
  shows "list_all (\<lambda>m. m_updated_at m = now cx) ret
     \<and> set ret \<subseteq> set (memories d')
     \<and> list_all2
         (\<lambda>old new. update_memory_row cx s d old = Inr new
            \<and> (m_updated_at old \<le> m_updated_at new) = (m_updated_at old \<le> now cx)
            \<and> (m_created_at new \<le> m_updated_at new) = (m_created_at new \<le> now cx))
         (select_memory cx mid d) ret"
proof -
  let ?sel = "\<lambda>m. memories_policy cx (Some (m_user_id m)) \<and> m_id m = mid"
  from assms obtain ms where uw: "update_where ?sel (update_memory_row cx s d) (memories d) = Inr (ms, ret)"
    and d': "d' = d\<lparr>memories := ms\<rparr>"
    by (auto simp: update_memory_def split: sum.splits)
  from update_where_rows [OF uw]
  have rows: "list_all2 (\<lambda>x y. update_memory_row cx s d x = Inr y) (filter ?sel (memories d)) ret"
    and sub: "set ret \<subseteq> set ms" by simp_all
  from rows have a: "list_all2
         (\<lambda>old new. update_memory_row cx s d old = Inr new
            \<and> (m_updated_at old \<le> m_updated_at new) = (m_updated_at old \<le> now cx)
            \<and> (m_created_at new \<le> m_updated_at new) = (m_created_at new \<le> now cx))
         (select_memory cx mid d) ret"
    unfolding select_memory_def
    by (rule list_all2_mono) (simp add: update_memory_row_updated_at)
  have b: "list_all (\<lambda>m. m_updated_at m = now cx) ret"
    unfolding list_all_iff
  proof
    fix new assume "new \<in> set ret"
    with rows obtain old where "update_memory_row cx s d old = Inr new"
      by (auto simp: in_set_conv_nth list_all2_conv_all_nth)
    then show "m_updated_at new = now cx" by (rule update_memory_row_updated_at)
  qed
  from a b sub d' show ?thesis by simp
qed

lemma scenario_future_update:
  "update_memory scenario_ctx 9 (retitle ''renamed'') scenario_future_db
     = Inr (scenario_db\<lparr>memories := memories scenario_db @ [scenario_future_row ''renamed'' 100]\<rparr>,
            [scenario_future_row ''renamed'' 100])"
  by code_simp

text \<open>
  Claim C5 as stated fails. At server time 10 user 1 inserts a memory with created_at
  and updated_at 500 (the insert policy only looks at user_id); at server time 100 the
  memory is renamed. The update moves updated_at back from 500 to 100, below the
  previous updated_at and below created_at.
\<close>

theorem update_memory_not_monotone:
  "insert_memory (scenario_ctx\<lparr>now := 10\<rparr>) scenario_future_memory scenario_db
     = Inr scenario_future_db
   \<and> select_memory scenario_ctx 9 scenario_future_db = [scenario_future_row ''later'' 500]
   \<and> m_created_at (scenario_future_row ''later'' 500)
       \<le> m_updated_at (scenario_future_row ''later'' 500)
   \<and> update_memory scenario_ctx 9 (retitle ''renamed'') scenario_future_db
     = Inr (scenario_db\<lparr>memories := memories scenario_db @ [scenario_future_row ''renamed'' 100]\<rparr>,
            [scenario_future_row ''renamed'' 100])
   \<and> m_updated_at (scenario_future_row ''renamed'' 100)
       < m_updated_at (scenario_future_row ''later'' 500)
   \<and> m_updated_at (scenario_future_row ''renamed'' 100)
       < m_created_at (scenario_future_row ''renamed'' 100)"
proof -
  have a: "insert_memory (scenario_ctx\<lparr>now := 10\<rparr>) scenario_future_memory scenario_db
             = Inr scenario_future_db"
    by code_simp
  have b: "select_memory scenario_ctx 9 scenario_future_db = [scenario_future_row ''later'' 500]"
    by code_simp
  from a b scenario_future_update show ?thesis by (simp add: scenario_future_row_def)
qed

text \<open>
  The same update: the stored updated_at is the server time 100, not the 0 that the
  statement supplied.
\<close>

theorem update_memory_stamps_server_time_witness:
  "update_memory scenario_ctx 9 (retitle ''renamed'') scenario_future_db
     = Inr (scenario_db\<lparr>memories := memories scenario_db @ [scenario_future_row ''renamed'' 100]\<rparr>,
            [scenario_future_row ''renamed'' 100])
   \<and> ms_updated_at (retitle ''renamed'') = Val 0
   \<and> list_all (\<lambda>m. m_updated_at m = now scenario_ctx) [scenario_future_row ''renamed'' 100]
   \<and> now scenario_ctx = 100"
  using update_memory_stamps_server_time [OF scenario_future_update] scenario_future_update
  by (simp add: scenario_ctx_def retitle_def)

section \<open>A prune that fails\<close>

text \<open>
  Claim C6, as the schema has it. The trigger runs inside the INSERT statement and the
  function catches nothing: when the prune fails after the policy and the constraints
  have accepted the row and the row has been written, the INSERT returns the error of
  the prune and no state, so the row is rolled back. The prune fails on every call, and
  no INSERT into chat_messages returns a state.
\<close>

theorem prune_failure_aborts_insert:
  "(chat_policy cx d (cn_user_id (chat_messages_new cx s)) (cn_memory_id (chat_messages_new cx s))
      \<and> chat_messages_constraints d (chat_messages d) None (chat_messages_new cx s) = Inr c
      \<and> prune_chat_messages cx c (d\<lparr>chat_messages := chat_messages d @ [c]\<rparr>) = Inl e
    \<longrightarrow> insert_chat_message cx s d = Inl e)
   \<and> prune_chat_messages cx c (d\<lparr>chat_messages := chat_messages d @ [c]\<rparr>) = Inl AmbiguousColumn
   \<and> insert_chat_message cx s d \<noteq> Inr d'"
proof -
  have "insert_chat_message cx s d = Inl e"
    if "chat_policy cx d (cn_user_id (chat_messages_new cx s)) (cn_memory_id (chat_messages_new cx s))"
      "chat_messages_constraints d (chat_messages d) None (chat_messages_new cx s) = Inr c"
      "prune_chat_messages cx c (d\<lparr>chat_messages := chat_messages d @ [c]\<rparr>) = Inl e"
    using that by (simp add: insert_chat_message_def Let_def)
  then show ?thesis
    using prune_chat_messages_raises insert_chat_message_never_succeeds by blast
qed

text \<open>
  Claim C6 as stated fails. The first message of the scenario passes the policy and the
  constraints, the prune raises after the row has been written, and the INSERT ends in
  the error of the prune: the message is not stored.
\<close>

theorem prune_failure_loses_message:
  "chat_policy scenario_ctx scenario_db
      (cn_user_id (chat_messages_new scenario_ctx (snd (scenario_message 1))))
      (cn_memory_id (chat_messages_new scenario_ctx (snd (scenario_message 1))))
   \<and> chat_messages_constraints scenario_db (chat_messages scenario_db) None
        (chat_messages_new scenario_ctx (snd (scenario_message 1)))
       = Inr (scenario_row 1)
   \<and> prune_chat_messages scenario_ctx (scenario_row 1)
        (scenario_db\<lparr>chat_messages := chat_messages scenario_db @ [scenario_row 1]\<rparr>)
       = Inl AmbiguousColumn
   \<and> insert_chat_message scenario_ctx (snd (scenario_message 1)) scenario_db
       = Inl AmbiguousColumn
   \<and> run [(scenario_ctx, InsertChatMessage (snd (scenario_message 1)))] scenario_db = scenario_db"
proof -
  have a: "chat_policy scenario_ctx scenario_db
      (cn_user_id (chat_messages_new scenario_ctx (snd (scenario_message 1))))
      (cn_memory_id (chat_messages_new scenario_ctx (snd (scenario_message 1))))"
    by code_simp
  have b: "chat_messages_constraints scenario_db (chat_messages scenario_db) None
        (chat_messages_new scenario_ctx (snd (scenario_message 1)))
       = Inr (scenario_row 1)"
    by code_simp
  have c: "prune_chat_messages scenario_ctx (scenario_row 1)
        (scenario_db\<lparr>chat_messages := chat_messages scenario_db @ [scenario_row 1]\<rparr>)
       = Inl AmbiguousColumn"
    by (rule prune_chat_messages_raises)
  have d: "insert_chat_message scenario_ctx (snd (scenario_message 1)) scenario_db
       = Inl AmbiguousColumn"
    by code_simp
  have e: "run [(scenario_ctx, InsertChatMessage (snd (scenario_message 1)))] scenario_db = scenario_db"
    using d by simp
  from a b c d e show ?thesis by blast
qed

theorem prune_failure_aborts_insert_witness:
  "chat_policy scenario_ctx scenario_db
      (cn_user_id (chat_messages_new scenario_ctx (snd (scenario_message 1))))
      (cn_memory_id (chat_messages_new scenario_ctx (snd (scenario_message 1))))
   \<and> chat_messages_constraints scenario_db (chat_messages scenario_db) None
        (chat_messages_new scenario_ctx (snd (scenario_message 1)))
       = Inr (scenario_row 1)
   \<and> prune_chat_messages scenario_ctx (scenario_row 1)
        (scenario_db\<lparr>chat_messages := chat_messages scenario_db @ [scenario_row 1]\<rparr>)
       = Inl AmbiguousColumn
   \<and> insert_chat_message scenario_ctx (snd (scenario_message 1)) scenario_db
       = Inl AmbiguousColumn"
proof -
  have a: "chat_policy scenario_ctx scenario_db
      (cn_user_id (chat_messages_new scenario_ctx (snd (scenario_message 1))))
      (cn_memory_id (chat_messages_new scenario_ctx (snd (scenario_message 1))))"
    by code_simp
  have b: "chat_messages_constraints scenario_db (chat_messages scenario_db) None
        (chat_messages_new scenario_ctx (snd (scenario_message 1)))
       = Inr (scenario_row 1)"
    by code_simp
  note t = prune_failure_aborts_insert [of scenario_ctx scenario_db "snd (scenario_message 1)"
      "scenario_row 1" AmbiguousColumn scenario_db]
  from t have c: "prune_chat_messages scenario_ctx (scenario_row 1)
        (scenario_db\<lparr>chat_messages := chat_messages scenario_db @ [scenario_row 1]\<rparr>)
       = Inl AmbiguousColumn"
    by blast
  from t a b c have d: "insert_chat_message scenario_ctx (snd (scenario_message 1)) scenario_db
       = Inl AmbiguousColumn"
    by blast
  from a b c d show ?thesis by blast
qed

section \<open>Missing and empty fields\<close>




section \<open>What every statement preserves\<close>

lemma insert_memory_references:
  assumes "insert_memory cx s d = Inr d'" and "references_users d" and "references_memories d"
  shows "references_users d' \<and> references_memories d'"
proof -
  from assms(1) obtain m where m: "memories_constraints d (memories d) None (memories_new cx s) = Inr m"
    and d': "d' = d\<lparr>memories := memories d @ [m]\<rparr>"
    by (auto simp: insert_memory_def Let_def split: if_splits sum.splits)
  from m have "m_user_id m \<in> set (users d)"
    by (auto simp: memories_constraints_def fk_checked_def split: option.splits if_splits)
  with assms(2,3) d' show ?thesis
    by (auto simp: references_users_def references_memories_def)
qed

lemma insert_memory_record_references:
  assumes "insert_memory_record cx s d = Inr d'" and "references_users d" and "references_memories d"
  shows "references_users d' \<and> references_memories d'"
proof -
  from assms(1) obtain r where
    r: "memory_records_constraints d (memory_records d) None (memory_records_new cx s) = Inr r"
    and d': "d' = d\<lparr>memory_records := memory_records d @ [r]\<rparr>"
    by (auto simp: insert_memory_record_def Let_def split: if_splits sum.splits)
  from r have "r_user_id r \<in> set (users d)" "r_memory_id r \<in> set (map m_id (memories d))"
    by (auto simp: memory_records_constraints_def fk_checked_def split: option.splits if_splits)
  with assms(2,3) d' show ?thesis
    by (auto simp: references_users_def references_memories_def)
qed

lemma insert_chat_message_references:
  assumes "insert_chat_message cx s d = Inr d'" and "references_users d" and "references_memories d"
  shows "references_users d' \<and> references_memories d'"
  using assms(1) insert_chat_message_never_succeeds by blast

lemma list_all2_pick:
  "list_all2 P xs ys \<Longrightarrow> x \<in> set xs \<Longrightarrow> \<exists>y \<in> set ys. P x y"
  by (induction rule: list_all2_induct) auto

lemma list_all2_pick_right:
  "list_all2 P xs ys \<Longrightarrow> y \<in> set ys \<Longrightarrow> \<exists>x \<in> set xs. P x y"
  by (induction rule: list_all2_induct) auto

lemma update_memory_row_user:
  assumes "update_memory_row cx s d old = Inr new" and "m_user_id old \<in> set (users d)"
  shows "m_user_id new \<in> set (users d)"
  using assms
  by (auto simp: update_memory_row_def memories_constraints_def fk_checked_def Let_def
      split: if_splits option.splits sum.splits)

lemma update_memory_row_id:
  assumes "update_memory_row cx s d old = Inr new"
  shows "m_id new = m_id old
     \<or> (m_id old \<notin> set (map r_memory_id (memory_records d))
        \<and> m_id old \<notin> set (map c_memory_id (chat_messages d)))"
  using assms
  by (auto simp: update_memory_row_def Let_def split: if_splits sum.splits)

lemma update_memory_references:
  assumes "update_memory cx mid s d = Inr (d', ret)"
    and "references_users d" and "references_memories d"
  shows "references_users d' \<and> references_memories d'"
proof -
  let ?sel = "\<lambda>m. memories_policy cx (Some (m_user_id m)) \<and> m_id m = mid"
  from assms(1) obtain ms where
    uw: "update_where ?sel (update_memory_row cx s d) (memories d) = Inr (ms, ret)"
    and d': "d' = d\<lparr>memories := ms\<rparr>"
    by (auto simp: update_memory_def split: sum.splits)
  from update_where_rows [OF uw]
  have rel: "list_all2 (\<lambda>x y. if ?sel x then update_memory_row cx s d x = Inr y else y = x)
               (memories d) ms" by simp
  have u: "m_user_id y \<in> set (users d)" if "y \<in> set ms" for y
  proof -
    from list_all2_pick_right [OF rel that] obtain x where x: "x \<in> set (memories d)"
      "if ?sel x then update_memory_row cx s d x = Inr y else y = x" by blast
    from x(1) assms(2) have "m_user_id x \<in> set (users d)" by (simp add: references_users_def)
    with x(2) show ?thesis by (auto dest: update_memory_row_user split: if_splits)
  qed
  have k: "k \<in> set (map m_id ms)"
    if "k \<in> set (map m_id (memories d))"
      "k \<in> set (map r_memory_id (memory_records d)) \<or> k \<in> set (map c_memory_id (chat_messages d))"
    for k
  proof -
    from that(1) obtain x where x: "x \<in> set (memories d)" "m_id x = k" by auto
    from list_all2_pick [OF rel x(1)] obtain y where y: "y \<in> set ms"
      "if ?sel x then update_memory_row cx s d x = Inr y else y = x" by blast
    have "m_id y = k"
    proof (cases "?sel x")
      case True
      with y(2) have "update_memory_row cx s d x = Inr y" by simp
      from update_memory_row_id [OF this] that(2) x(2) show ?thesis by auto
    next
      case False
      with y(2) x(2) show ?thesis by simp
    qed
    with y(1) show ?thesis by auto
  qed
  have ru: "references_users d'"
    using assms(2) u by (simp add: references_users_def d')
  have rm: "references_memories d'"
    unfolding references_memories_def d'
    using assms(3) k by (simp add: references_memories_def)
  from ru rm show ?thesis ..
qed

lemma update_chat_message_row_refs:
  assumes "update_chat_message_row cx s d old = Inr new"
    and "c_user_id old \<in> set (users d)" and "c_memory_id old \<in> set (map m_id (memories d))"
  shows "c_user_id new \<in> set (users d) \<and> c_memory_id new \<in> set (map m_id (memories d))"
  using assms
  by (auto simp: update_chat_message_row_def chat_messages_constraints_def fk_checked_def Let_def
      split: if_splits option.splits)

lemma update_chat_message_references:
  assumes "update_chat_message cx cid s d = Inr (d', ret)"
    and "references_users d" and "references_memories d"
  shows "references_users d' \<and> references_memories d'"
proof -
  let ?sel = "\<lambda>c. chat_row_policy cx d c \<and> c_id c = cid"
  from assms(1) obtain cs where
    uw: "update_where ?sel (update_chat_message_row cx s d) (chat_messages d) = Inr (cs, ret)"
    and d': "d' = d\<lparr>chat_messages := cs\<rparr>"
    by (auto simp: update_chat_message_def split: sum.splits)
  from update_where_rows [OF uw]
  have rel: "list_all2 (\<lambda>x y. if ?sel x then update_chat_message_row cx s d x = Inr y else y = x)
               (chat_messages d) cs" by simp
  have "c_user_id y \<in> set (users d) \<and> c_memory_id y \<in> set (map m_id (memories d))"
    if "y \<in> set cs" for y
  proof -
    from list_all2_pick_right [OF rel that] obtain x where x: "x \<in> set (chat_messages d)"
      "if ?sel x then update_chat_message_row cx s d x = Inr y else y = x" by blast
    from x(1) assms(2,3) have "c_user_id x \<in> set (users d)"
      "c_memory_id x \<in> set (map m_id (memories d))"
      by (simp_all add: references_users_def references_memories_def)
    with x(2) show ?thesis
      by (cases "?sel x") (auto dest: update_chat_message_row_refs)
  qed
  with assms(2,3) show ?thesis
    by (simp add: references_users_def references_memories_def d')
qed

lemma update_memory_record_row_refs:
  assumes "update_memory_record_row cx s d old = Inr new"
    and "r_user_id old \<in> set (users d)" and "r_memory_id old \<in> set (map m_id (memories d))"
  shows "r_user_id new \<in> set (users d) \<and> r_memory_id new \<in> set (map m_id (memories d))"
  using assms
  by (auto simp: update_memory_record_row_def memory_records_constraints_def fk_checked_def Let_def
      split: if_splits option.splits)

lemma update_memory_record_references:
  assumes "update_memory_record cx rid s d = Inr (d', ret)"
    and "references_users d" and "references_memories d"
  shows "references_users d' \<and> references_memories d'"
proof -
  let ?sel = "\<lambda>r. records_row_policy cx d r \<and> r_id r = rid"
  from assms(1) obtain rs where
    uw: "update_where ?sel (update_memory_record_row cx s d) (memory_records d) = Inr (rs, ret)"
    and d': "d' = d\<lparr>memory_records := rs\<rparr>"
    by (auto simp: update_memory_record_def split: sum.splits)
  from update_where_rows [OF uw]
  have rel: "list_all2 (\<lambda>x y. if ?sel x then update_memory_record_row cx s d x = Inr y else y = x)
               (memory_records d) rs" by simp
  have "r_user_id y \<in> set (users d) \<and> r_memory_id y \<in> set (map m_id (memories d))"
    if "y \<in> set rs" for y
  proof -
    from list_all2_pick_right [OF rel that] obtain x where x: "x \<in> set (memory_records d)"
      "if ?sel x then update_memory_record_row cx s d x = Inr y else y = x" by blast
    from x(1) assms(2,3) have "r_user_id x \<in> set (users d)"
      "r_memory_id x \<in> set (map m_id (memories d))"
      by (simp_all add: references_users_def references_memories_def)
    with x(2) show ?thesis
      by (cases "?sel x") (auto dest: update_memory_record_row_refs)
  qed
  with assms(2,3) show ?thesis
    by (simp add: references_users_def references_memories_def d')
qed

lemma delete_memory_references:
  assumes "references_users d" and "references_memories d"
  shows "references_users (fst (delete_memory cx mid d))
     \<and> references_memories (fst (delete_memory cx mid d))"
proof -
  have "references_users (fst (delete_memory cx mid d))"
    using assms(1) by (simp add: references_users_def delete_memory_def Let_def)
  moreover have "references_memories (fst (delete_memory cx mid d))"
    using assms(2) by (fastforce simp: references_memories_def delete_memory_def Let_def)
  ultimately show ?thesis ..
qed

lemma delete_user_references:
  assumes "references_users d" and "references_memories d"
  shows "references_users (delete_user uid d) \<and> references_memories (delete_user uid d)"
proof -
  have "references_users (delete_user uid d)"
    using assms(1) by (auto simp: references_users_def delete_user_def Let_def)
  moreover have "references_memories (delete_user uid d)"
    using assms(2) by (fastforce simp: references_memories_def delete_user_def Let_def)
  ultimately show ?thesis ..
qed

text \<open>
  The foreign keys hold after every statement that succeeds, if they held before.
\<close>

lemma exec_references:
  assumes "exec cx st d = Inr d'" and "references_users d" and "references_memories d"
  shows "references_users d' \<and> references_memories d'"
proof (cases st)
  case (InsertMemory s)
  with assms show ?thesis by (simp add: insert_memory_references)
next
  case (UpdateMemory mid s)
  with assms(1) obtain ret where "update_memory cx mid s d = Inr (d', ret)"
    by (cases "update_memory cx mid s d") auto
  from this assms(2,3) show ?thesis by (rule update_memory_references)
next
  case (DeleteMemory mid)
  with assms delete_memory_references [of d cx mid] show ?thesis by auto
next
  case (InsertRecord s)
  with assms show ?thesis by (simp add: insert_memory_record_references)
next
  case (UpdateRecord rid s)
  with assms(1) obtain ret where "update_memory_record cx rid s d = Inr (d', ret)"
    by (cases "update_memory_record cx rid s d") auto
  from this assms(2,3) show ?thesis by (rule update_memory_record_references)
next
  case (DeleteRecord rid)
  with assms show ?thesis
    by (auto simp: delete_memory_record_def references_users_def references_memories_def)
next
  case (InsertChatMessage s)
  with assms show ?thesis by (simp add: insert_chat_message_references)
next
  case (UpdateChatMessage cid s)
  with assms(1) obtain ret where "update_chat_message cx cid s d = Inr (d', ret)"
    by (cases "update_chat_message cx cid s d") auto
  from this assms(2,3) show ?thesis by (rule update_chat_message_references)
next
  case (DeleteChatMessage cid)
  with assms show ?thesis
    by (auto simp: delete_chat_message_def references_users_def references_memories_def)
next
  case (DeleteUser uid)
  with assms delete_user_references [of d uid] show ?thesis by auto
qed

lemma replace_distinct_key:
  "distinct (map key xs) \<Longrightarrow> x \<in> set xs \<Longrightarrow> key x' \<notin> set (map key (remove1 x xs)) \<Longrightarrow>
     distinct (map key (map (\<lambda>y. if y = x then x' else y) xs))"
proof (induction xs)
  case Nil
  then show ?case by simp
next
  case (Cons a xs)
  show ?case
  proof (cases "a = x")
    case True
    with Cons.prems have "x \<notin> set xs" by auto
    then have "map (\<lambda>y. if y = x then x' else y) xs = xs" by (induction xs) auto
    with True Cons.prems show ?thesis by simp
  next
    case False
    with Cons.prems have x: "x \<in> set xs" and d: "distinct (map key xs)"
      and k: "key x' \<notin> set (map key (remove1 x xs))" and a: "key a \<notin> key ` set xs"
      and ne: "key x' \<noteq> key a" by auto
    have "key a \<notin> set (map key (map (\<lambda>y. if y = x then x' else y) xs))"
    proof
      assume "key a \<in> set (map key (map (\<lambda>y. if y = x then x' else y) xs))"
      then obtain y where y: "y \<in> set xs" "key a = key (if y = x then x' else y)" by auto
      show False
      proof (cases "y = x")
        case True
        with y(2) ne show False by simp
      next
        case False
        with y have "key a \<in> key ` set xs" by auto
        with a show False by contradiction
      qed
    qed
    with Cons.IH [OF d x k] False show ?thesis by (simp del: map_map set_map)
  qed
qed

lemma update_where_by_key_distinct:
  assumes d: "distinct (map key xs)"
    and uw: "update_where (\<lambda>x. P x \<and> key x = k) f xs = Inr (ys, ret)"
    and fresh: "\<And>x y. x \<in> set xs \<Longrightarrow> f x = Inr y \<Longrightarrow> key y \<notin> set (map key (remove1 x xs))"
  shows "distinct (map key ys)"
proof (cases "\<exists>x \<in> set xs. P x \<and> key x = k")
  case False
  then have "update_where (\<lambda>x. P x \<and> key x = k) f xs = Inr (xs, [])"
    by (intro update_where_none) blast
  with uw d show ?thesis by simp
next
  case True
  then obtain x where x: "x \<in> set xs" "P x" "key x = k" by blast
  have sel: "\<forall>y \<in> set xs. (P y \<and> key y = k) \<longleftrightarrow> y = x"
    using x d by (auto simp: distinct_map inj_on_def)
  from update_where_rows [OF uw]
  have "list_all2 (\<lambda>a b. f a = Inr b) (filter (\<lambda>x. P x \<and> key x = k) xs) ret" by simp
  moreover have "x \<in> set (filter (\<lambda>x. P x \<and> key x = k) xs)" using x by simp
  ultimately obtain x' where x': "f x = Inr x'" by (blast dest: list_all2_pick)
  have dx: "distinct xs" using d by (simp add: distinct_map)
  have "update_where (\<lambda>x. P x \<and> key x = k) f xs
          = Inr (map (\<lambda>y. if y = x then x' else y) xs, [x'])"
    using dx x(1) sel x' by (rule update_where_single)
  with uw have "ys = map (\<lambda>y. if y = x then x' else y) xs" by simp
  with replace_distinct_key [OF d x(1) fresh [OF x(1) x']] show ?thesis by simp
qed

lemma update_memory_row_fresh:
  "update_memory_row cx s d old = Inr new \<Longrightarrow>
     m_id new \<notin> set (map m_id (remove1 old (memories d)))"
  by (auto simp: update_memory_row_def memories_constraints_def Let_def
      split: if_splits option.splits sum.splits)

lemma update_memory_record_row_fresh:
  "update_memory_record_row cx s d old = Inr new \<Longrightarrow>
     r_id new \<notin> set (map r_id (remove1 old (memory_records d)))"
  by (auto simp: update_memory_record_row_def memory_records_constraints_def Let_def
      split: if_splits option.splits)

lemma update_chat_message_row_fresh:
  "update_chat_message_row cx s d old = Inr new \<Longrightarrow>
     c_id new \<notin> set (map c_id (remove1 old (chat_messages d)))"
  by (auto simp: update_chat_message_row_def chat_messages_constraints_def Let_def
      split: if_splits option.splits)

text \<open>
  So do the primary keys.
\<close>

lemma exec_primary_keys:
  assumes "exec cx st d = Inr d'" and "primary_keys d"
  shows "primary_keys d'"
proof (cases st)
  case (InsertMemory s)
  with assms(1) obtain m where "memories_constraints d (memories d) None (memories_new cx s) = Inr m"
    and "d' = d\<lparr>memories := memories d @ [m]\<rparr>"
    by (auto simp: insert_memory_def Let_def split: if_splits sum.splits)
  moreover from this(1) have "m_id m \<notin> set (map m_id (memories d))"
    by (auto simp: memories_constraints_def split: option.splits if_splits)
  ultimately show ?thesis using assms(2) by (simp add: primary_keys_def)
next
  case (UpdateMemory mid s)
  with assms(1) obtain ms ret where
    uw: "update_where (\<lambda>m. memories_policy cx (Some (m_user_id m)) \<and> m_id m = mid)
           (update_memory_row cx s d) (memories d) = Inr (ms, ret)"
    and d': "d' = d\<lparr>memories := ms\<rparr>"
    by (auto simp: update_memory_def split: sum.splits)
  from assms(2) have "distinct (map m_id (memories d))" by (simp add: primary_keys_def)
  from this uw have "distinct (map m_id ms)"
    by (rule update_where_by_key_distinct) (rule update_memory_row_fresh)
  with assms(2) d' show ?thesis by (simp add: primary_keys_def)
next
  case (DeleteMemory mid)
  with assms show ?thesis
    by (auto simp: primary_keys_def delete_memory_def Let_def distinct_map_filter)
next
  case (InsertRecord s)
  with assms(1) obtain r where
    "memory_records_constraints d (memory_records d) None (memory_records_new cx s) = Inr r"
    and "d' = d\<lparr>memory_records := memory_records d @ [r]\<rparr>"
    by (auto simp: insert_memory_record_def Let_def split: if_splits sum.splits)
  moreover from this(1) have "r_id r \<notin> set (map r_id (memory_records d))"
    by (auto simp: memory_records_constraints_def split: option.splits if_splits)
  ultimately show ?thesis using assms(2) by (simp add: primary_keys_def)
next
  case (UpdateRecord rid s)
  with assms(1) obtain rs ret where
    uw: "update_where (\<lambda>r. records_row_policy cx d r \<and> r_id r = rid)
           (update_memory_record_row cx s d) (memory_records d) = Inr (rs, ret)"
    and d': "d' = d\<lparr>memory_records := rs\<rparr>"
    by (auto simp: update_memory_record_def split: sum.splits)
  from assms(2) have "distinct (map r_id (memory_records d))" by (simp add: primary_keys_def)
  from this uw have "distinct (map r_id rs)"
    by (rule update_where_by_key_distinct) (rule update_memory_record_row_fresh)
  with assms(2) d' show ?thesis by (simp add: primary_keys_def)
next
  case (DeleteRecord rid)
  with assms show ?thesis
    by (auto simp: primary_keys_def delete_memory_record_def distinct_map_filter)
next
  case (InsertChatMessage s)
  with assms(1) insert_chat_message_never_succeeds show ?thesis by simp
next
  case (UpdateChatMessage cid s)
  with assms(1) obtain cs ret where
    uw: "update_where (\<lambda>c. chat_row_policy cx d c \<and> c_id c = cid)
           (update_chat_message_row cx s d) (chat_messages d) = Inr (cs, ret)"
    and d': "d' = d\<lparr>chat_messages := cs\<rparr>"
    by (auto simp: update_chat_message_def split: sum.splits)
  from assms(2) have "distinct (map c_id (chat_messages d))" by (simp add: primary_keys_def)
  from this uw have "distinct (map c_id cs)"
    by (rule update_where_by_key_distinct) (rule update_chat_message_row_fresh)
  with assms(2) d' show ?thesis by (simp add: primary_keys_def)
next
  case (DeleteChatMessage cid)
  with assms show ?thesis
    by (auto simp: primary_keys_def delete_chat_message_def distinct_map_filter)
next
  case (DeleteUser uid)
  with assms show ?thesis
    by (auto simp: primary_keys_def delete_user_def Let_def distinct_map_filter)
qed

section \<open>Changing a chat message\<close>



section \<open>The rows of a deleted user\<close>

text \<open>
  Claim C10. Deleting a user removes the user and every memory, record and chat message
  whose user_id is that user. Together with the foreign key checks of the writes this
  keeps every reference intact: if before a statement every row references an existing
  user and every child row an existing memory, the same holds after it, for every
  statement that succeeds, the deletion of a user among them.
\<close>

theorem delete_user_cascades:
  "uid \<notin> set (users (delete_user uid d))
   \<and> uid \<notin> set (map m_user_id (memories (delete_user uid d)))
   \<and> uid \<notin> set (map r_user_id (memory_records (delete_user uid d)))
   \<and> uid \<notin> set (map c_user_id (chat_messages (delete_user uid d)))
   \<and> (references_users d \<and> references_memories d \<and> exec cx st d = Inr d' \<longrightarrow>
        references_users d' \<and> references_memories d')"
proof -
  have "references_users d' \<and> references_memories d'"
    if "references_users d" "references_memories d" "exec cx st d = Inr d'"
    using that(3,1,2) by (rule exec_references)
  then show ?thesis by (auto simp: delete_user_def Let_def)
qed

text \<open>
  Deleting user 1 from the scenario leaves user 2 with memory 8, its record and its
  message.
\<close>

theorem delete_user_cascades_witness:
  "references_users scenario_full \<and> references_memories scenario_full
   \<and> exec scenario_ctx (DeleteUser 1) scenario_full
       = Inr \<lparr>users = [2],
          memories = [\<lparr>m_id = 8, m_user_id = 2, m_title = ''M2'', m_description = None,
                       m_created_at = 0, m_updated_at = 0\<rparr>],
          memory_records = [\<lparr>r_id = 51, r_memory_id = 8, r_user_id = 2, r_content = ''other'',
                             r_metadata = ''{}'', r_created_at = 100\<rparr>],
          chat_messages = [\<lparr>c_id = 1, c_user_id = 2, c_memory_id = 8, c_role = ''user'',
                            c_content = ''hi'', c_created_at = 3\<rparr>]\<rparr>
   \<and> references_users (delete_user 1 scenario_full)
   \<and> references_memories (delete_user 1 scenario_full)"
proof -
  have a: "references_users scenario_full" by code_simp
  have b: "references_memories scenario_full" by code_simp
  have c: "delete_user 1 scenario_full
       = \<lparr>users = [2],
          memories = [\<lparr>m_id = 8, m_user_id = 2, m_title = ''M2'', m_description = None,
                       m_created_at = 0, m_updated_at = 0\<rparr>],
          memory_records = [\<lparr>r_id = 51, r_memory_id = 8, r_user_id = 2, r_content = ''other'',
                             r_metadata = ''{}'', r_created_at = 100\<rparr>],
          chat_messages = [\<lparr>c_id = 1, c_user_id = 2, c_memory_id = 8, c_role = ''user'',
                            c_content = ''hi'', c_created_at = 3\<rparr>]\<rparr>"
    by code_simp
  have e: "exec scenario_ctx (DeleteUser 1) scenario_full = Inr (delete_user 1 scenario_full)"
    by simp
  from delete_user_cascades [of 1 scenario_full scenario_ctx "DeleteUser 1"
      "delete_user 1 scenario_full"] a b e
  have "references_users (delete_user 1 scenario_full)"
    "references_memories (delete_user 1 scenario_full)" by simp_all
  with a b c show ?thesis by simp
qed

end
